theory Spec2Isabelle
  imports Complex_Main "HOL-Library.AList"
begin

section \<open>Errors raised by the program\<close>

text \<open>
  Every exception the Python source can raise is a value. Floating-point numbers are
  idealised as real numbers throughout; rounding, overflow and underflow are not modelled.
\<close>

datatype error =
    AssertionError
  | ValueError
  | KeyError
  | IndexError
  | TypeError
  | RuntimeError
  | FloatingPointError
  | ModelError

section \<open>Python lists and arrays\<close>

text \<open>
  Indexing a Python list or an array with an integer: a negative index counts from the
  end, an index out of range raises IndexError.
\<close>

definition py_get :: "'a list \<Rightarrow> int \<Rightarrow> error + 'a" where
  "py_get xs i =
     (let n = int (length xs) in
      if 0 \<le> i \<and> i < n then Inr (xs ! nat i)
      else if - n \<le> i \<and> i < 0 then Inr (xs ! nat (n + i))
      else Inl IndexError)"

text \<open>
  A loop \<open>for x in xs: body\<close> over a state. A raise inside the body ends the loop; the
  error carries the state as the raise left it, since the tables are rewritten in place.
\<close>

fun for_loop :: "('a \<Rightarrow> 's \<Rightarrow> error \<times> 's + 's) \<Rightarrow> 'a list \<Rightarrow> 's \<Rightarrow> error \<times> 's + 's" where
  "for_loop body [] s = Inr s"
| "for_loop body (x # xs) s =
     (case body x s of Inl e \<Rightarrow> Inl e | Inr s' \<Rightarrow> for_loop body xs s')"

type_synonym arr1 = "real list"
type_synonym arr2 = "real list list"
type_synonym arr3 = "real list list list"

text \<open>
  Element-wise product and sum of two arrays of shape (nsites, N_CODON), and the sum of
  an array and a Python scalar. The operands of the engine have equal shapes by the
  contract of the substitution model; the theorems below carry that contract.
\<close>

definition emul :: "arr2 \<Rightarrow> arr2 \<Rightarrow> arr2" where
  "emul a b = map2 (map2 (*)) a b"

definition eadd :: "arr2 \<Rightarrow> arr2 \<Rightarrow> arr2" where
  "eadd a b = map2 (map2 (+)) a b"

definition eadd_scalar :: "arr2 \<Rightarrow> real \<Rightarrow> arr2" where
  "eadd_scalar a c = map (map (\<lambda>v. v + c)) a"

text \<open>
  Modelled from the spec: \<open>broadcastMatrixVectorMultiply\<close> of \<open>phydmslib.numutils\<close> is
  not among the sources. The spec gives the message of an internal child as
  \<open>MLc[r][x] = \<Sigma>_y Mc[r][x][y] \<cdot> L[c - ntips][r][y]\<close>: for every site the matrix of that
  site times the vector of that site.
\<close>

definition broadcastMatrixVectorMultiply :: "arr3 \<Rightarrow> arr2 \<Rightarrow> arr2" where
  "broadcastMatrixVectorMultiply m v =
     map2 (\<lambda>mr vr. map (\<lambda>mrx. sum_list (map2 (*) mrx vr)) mr) m v"

section \<open>The substitution model, as the engine uses it\<close>

text \<open>
  The value of a free parameter: a float, a one-dimensional array, or anything else.
\<close>

datatype paramvalue = PFloat real | PArray "real list" | POther

text \<open>
  A quantity that has one array per component of a parameter: for a float parameter the
  array itself (indexed by the empty tuple), for an array parameter of length k a leading
  axis of length k (indexed by the 1-tuple \<open>(j,)\<close>).
\<close>

datatype 'a dval = DScalar 'a | DVector "'a list"

datatype cindex = Empty_tuple | One_tuple nat

text \<open>
  Indexing such a quantity with a component index. An index of the wrong kind is outside
  the contract of the model (the kind of the index follows the kind of the parameter
  value); it is reported as an error.
\<close>

fun dval_get :: "'a dval \<Rightarrow> cindex \<Rightarrow> error + 'a" where
  "dval_get (DScalar a) Empty_tuple = Inr a"
| "dval_get (DVector v) (One_tuple j) = (if j < length v then Inr (v ! j) else Inl IndexError)"
| "dval_get (DScalar a) (One_tuple j) = Inl ValueError"
| "dval_get (DVector v) Empty_tuple = Inl ValueError"

fun dval_set :: "'a dval \<Rightarrow> cindex \<Rightarrow> 'a \<Rightarrow> error + 'a dval" where
  "dval_set (DScalar a) Empty_tuple b = Inr (DScalar b)"
| "dval_set (DVector v) (One_tuple j) b =
     (if j < length v then Inr (DVector (v[j := b])) else Inl IndexError)"
| "dval_set (DScalar a) (One_tuple j) b = Inl ValueError"
| "dval_set (DVector v) Empty_tuple b = Inl ValueError"

text \<open>
  The model is an external collaborator (\<open>phydmslib.models.Model\<close>). The record holds what
  the engine reads from it in its current state. \<open>M\<close> and \<open>dM\<close> are called with and without
  the optional arguments \<open>tips\<close> and \<open>gaps\<close>; the two forms are the fields \<open>M_tip\<close>, \<open>dM_tip\<close>
  and \<open>M\<close>, \<open>dM\<close>. The method \<open>updateParams\<close> of the model is a parameter of the operations
  that call it.
\<close>

record Model =
  m_nsites :: nat
  freeparams :: "string list"
  getattr :: "string \<Rightarrow> paramvalue"
  PARAMLIMITS :: "string \<Rightarrow> (real option \<times> real option) option"
  stationarystate :: arr2
  dstationarystate :: "string \<Rightarrow> arr2 dval"
  M :: "real \<Rightarrow> arr3"
  M_tip :: "real \<Rightarrow> nat list \<Rightarrow> nat list \<Rightarrow> arr2"
  dM :: "real \<Rightarrow> string \<Rightarrow> arr3 \<Rightarrow> arr3 dval"
  dM_tip :: "real \<Rightarrow> string \<Rightarrow> arr2 \<Rightarrow> nat list \<Rightarrow> nat list \<Rightarrow> arr2 dval"

type_synonym assignment = "(string \<times> paramvalue) list"

type_synonym model_update = "Model \<Rightarrow> assignment \<Rightarrow> error \<times> Model + Model"

section \<open>The tree and the engine\<close>

text \<open>
  A clade of \<open>Bio.Phylo\<close>: its name, the length of the branch leading to it and its
  children. The tree is its root clade. Clades are compared and hashed by identity; the
  identity of a clade is its path from the root (the positions taken among the children).
\<close>

datatype clade = Clade (name: "string option") (branch_length: real) (clades: "clade list")

type_synonym path = "nat list"

text \<open>A slot of the flat parameter array: a parameter name, or a (name, component) pair.\<close>

datatype slot = Scalar string | Component string nat

text \<open>
  The attributes of a \<open>TreeLikelihood\<close>. The private attributes \<open>_paramsarray\<close>,
  \<open>_index_to_param\<close> and \<open>_param_to_index\<close> are written with the prefix \<open>p_\<close>. The dicts
  \<open>_index_to_param\<close> and \<open>_param_to_index\<close> are association lists in insertion order, the
  order in which \<open>items()\<close> iterates.
\<close>

record TreeLikelihood =
  model :: Model
  nsites :: nat
  alignment :: "(string \<times> string) list"
  nseqs :: nat
  tree :: clade
  name_to_nodeindex :: "path \<Rightarrow> nat option"
  ninternal :: nat
  ntips :: nat
  nnodes :: nat
  rdescend :: "int list"
  ldescend :: "int list"
  t :: "real list"
  L :: "arr2 list"
  dL :: "string \<Rightarrow> arr2 dval list option"
  tips :: "nat list list"
  gaps :: "nat list list"
  p_paramsarray :: "real list option"
  p_index_to_param :: "(nat \<times> slot) list"
  p_param_to_index :: "(slot \<times> nat) list"
  siteloglik :: "real list"
  loglik :: real
  dsiteloglik :: "string \<Rightarrow> arr1 dval option"
  dloglik :: "string \<Rightarrow> real dval option"

type_synonym 'a raised = "error \<times> TreeLikelihood + 'a"

section \<open>The likelihood kernel\<close>

text \<open>
  What \<open>_computePartialLikelihoods\<close> holds for a child of the node it visits. The source
  writes the same statements once for the right and once for the left child; here they
  are one function applied to either child. For a tip child \<open>c\<close>: the branch length, the
  node index \<open>c\<close> and \<open>Mc = MLc = model.M(tc, tips[c], gaps[c])\<close>. For an internal child:
  the branch length, the internal node number \<open>c - ntips\<close>, \<open>Mc = model.M(tc)\<close> and
  \<open>MLc = broadcastMatrixVectorMultiply(Mc, L[c - ntips])\<close>.
\<close>

datatype child = TipChild real int arr2 | InternalChild real int arr3 arr2

fun ML_of :: "child \<Rightarrow> arr2" where
  "ML_of (TipChild tc c mc) = mc"
| "ML_of (InternalChild tc ci mc mlc) = mlc"

definition child_of :: "TreeLikelihood \<Rightarrow> int \<Rightarrow> error + child" where
  "child_of s c =
     (case py_get (t s) c of Inl e \<Rightarrow> Inl e | Inr tc \<Rightarrow>
      if c < int (ntips s) then
        (case py_get (tips s) c of Inl e \<Rightarrow> Inl e | Inr tipsc \<Rightarrow>
         case py_get (gaps s) c of Inl e \<Rightarrow> Inl e | Inr gapsc \<Rightarrow>
           Inr (TipChild tc c (M_tip (model s) tc tipsc gapsc)))
      else
        (case py_get (L s) (c - int (ntips s)) of Inl e \<Rightarrow> Inl e | Inr lc \<Rightarrow>
           Inr (InternalChild tc (c - int (ntips s)) (M (model s) tc)
                  (broadcastMatrixVectorMultiply (M (model s) tc) lc))))"

text \<open>
  The derivative \<open>dMc = model.dM(tc, param, Mc[, tips[c], gaps[c]])\<close> of a child, kept with
  what the loop over the components needs beside it.
\<close>

datatype dchild = DTipChild "arr2 dval" | DInternalChild int arr3 "arr3 dval"

fun dM_of :: "TreeLikelihood \<Rightarrow> string \<Rightarrow> child \<Rightarrow> error + dchild" where
  "dM_of s param (TipChild tc c mc) =
     (case py_get (tips s) c of Inl e \<Rightarrow> Inl e | Inr tipsc \<Rightarrow>
      case py_get (gaps s) c of Inl e \<Rightarrow> Inl e | Inr gapsc \<Rightarrow>
        Inr (DTipChild (dM_tip (model s) tc param mc tipsc gapsc)))"
| "dM_of s param (InternalChild tc ci mc mlc) =
     Inr (DInternalChild ci mc (dM (model s) tc param mc))"

text \<open>
  The term \<open>dMLc + MdLc\<close> of a child for the component \<open>j\<close> of \<open>param\<close>. For a tip,
  \<open>dMLc = dMc[j]\<close> and \<open>MdLc\<close> is the Python scalar 0. For an internal child,
  \<open>dMLc = broadcastMatrixVectorMultiply(dMc[j], L[c - ntips])\<close> and
  \<open>MdLc = broadcastMatrixVectorMultiply(Mc, dL[param][c - ntips][j])\<close>.
\<close>

fun dML_plus_MdL :: "TreeLikelihood \<Rightarrow> string \<Rightarrow> cindex \<Rightarrow> dchild \<Rightarrow> error + arr2" where
  "dML_plus_MdL s param j (DTipChild dmc) =
     (case dval_get dmc j of Inl e \<Rightarrow> Inl e | Inr dmlc \<Rightarrow> Inr (eadd_scalar dmlc 0))"
| "dML_plus_MdL s param j (DInternalChild ci mc dmc) =
     (case dval_get dmc j of Inl e \<Rightarrow> Inl e | Inr dmcj \<Rightarrow>
      case py_get (L s) ci of Inl e \<Rightarrow> Inl e | Inr lc \<Rightarrow>
      case dL s param of None \<Rightarrow> Inl KeyError | Some tbl \<Rightarrow>
      case py_get tbl ci of Inl e \<Rightarrow> Inl e | Inr dlc \<Rightarrow>
      case dval_get dlc j of Inl e \<Rightarrow> Inl e | Inr dlcj \<Rightarrow>
        Inr (eadd (broadcastMatrixVectorMultiply dmcj lc)
                  (broadcastMatrixVectorMultiply mc dlcj)))"

text \<open>The body of \<open>for j in indices\<close>: one \<open>scipy.copyto(self.dL[param][ni][j], ...)\<close>.\<close>

definition dL_step ::
  "nat \<Rightarrow> arr2 \<Rightarrow> arr2 \<Rightarrow> string \<Rightarrow> dchild \<Rightarrow> dchild \<Rightarrow> cindex \<Rightarrow> TreeLikelihood
     \<Rightarrow> TreeLikelihood raised" where
  "dL_step ni mlright mlleft param dmright dmleft j s =
     (case dML_plus_MdL s param j dmright of Inl e \<Rightarrow> Inl (e, s) | Inr dr \<Rightarrow>
      case dML_plus_MdL s param j dmleft of Inl e \<Rightarrow> Inl (e, s) | Inr dl \<Rightarrow>
      case dL s param of None \<Rightarrow> Inl (KeyError, s) | Some tbl \<Rightarrow>
      if \<not> ni < length tbl then Inl (IndexError, s)
      else
        (case dval_set (tbl ! ni) j (eadd (emul dr mlleft) (emul mlright dl)) of
           Inl e \<Rightarrow> Inl (e, s)
         | Inr row \<Rightarrow> Inr (s\<lparr>dL := (dL s)(param \<mapsto> tbl[ni := row])\<rparr>)))"

text \<open>
  The list \<open>indices\<close>: the empty tuple for a float, \<open>(j,)\<close> for \<open>j\<close> in
  \<open>range(len(paramvalue))\<close> otherwise; \<open>len\<close> of a value that is no array raises.
\<close>

fun indices_of :: "paramvalue \<Rightarrow> error + cindex list" where
  "indices_of (PFloat v) = Inr [Empty_tuple]"
| "indices_of (PArray v) = Inr (map One_tuple [0..<length v])"
| "indices_of POther = Inl TypeError"

text \<open>The body of \<open>for param in self.model.freeparams\<close> at the node \<open>ni + ntips\<close>.\<close>

definition param_step ::
  "nat \<Rightarrow> child \<Rightarrow> child \<Rightarrow> string \<Rightarrow> TreeLikelihood \<Rightarrow> TreeLikelihood raised" where
  "param_step ni right left param s =
     (case indices_of (getattr (model s) param) of Inl e \<Rightarrow> Inl (e, s) | Inr indices \<Rightarrow>
      case dM_of s param right of Inl e \<Rightarrow> Inl (e, s) | Inr dmright \<Rightarrow>
      case dM_of s param left of Inl e \<Rightarrow> Inl (e, s) | Inr dmleft \<Rightarrow>
        for_loop (dL_step ni (ML_of right) (ML_of left) param dmright dmleft) indices s)"

text \<open>The body of \<open>for n in range(self.ntips, self.nnodes)\<close>.\<close>

definition node_step :: "nat \<Rightarrow> TreeLikelihood \<Rightarrow> TreeLikelihood raised" where
  "node_step n s =
     (let ni = n - ntips s in
      case py_get (rdescend s) (int ni) of Inl e \<Rightarrow> Inl (e, s) | Inr nright \<Rightarrow>
      case py_get (ldescend s) (int ni) of Inl e \<Rightarrow> Inl (e, s) | Inr nleft \<Rightarrow>
      case child_of s nright of Inl e \<Rightarrow> Inl (e, s) | Inr right \<Rightarrow>
      case child_of s nleft of Inl e \<Rightarrow> Inl (e, s) | Inr left \<Rightarrow>
      if \<not> ni < length (L s) then Inl (IndexError, s)
      else
        for_loop (param_step ni right left) (freeparams (model s))
          (s\<lparr>L := (L s)[ni := emul (ML_of right) (ML_of left)]\<rparr>))"

definition computePartialLikelihoods :: "TreeLikelihood \<Rightarrow> TreeLikelihood raised" where
  "computePartialLikelihoods s = for_loop node_step [ntips s..<nnodes s] s"

section \<open>The root reduction: \<open>_updateInternals\<close>\<close>

text \<open>
  Combining two quantities that have one array per component of a parameter. Operands of
  different kinds or lengths are outside the contract of the model and are reported as
  an error.
\<close>

fun dval_zip :: "('a \<Rightarrow> 'b \<Rightarrow> 'c) \<Rightarrow> 'a dval \<Rightarrow> 'b dval \<Rightarrow> error + 'c dval" where
  "dval_zip f (DScalar a) (DScalar b) = Inr (DScalar (f a b))"
| "dval_zip f (DVector xs) (DVector ys) =
     (if length xs = length ys then Inr (DVector (map2 f xs ys)) else Inl ValueError)"
| "dval_zip f (DScalar a) (DVector ys) = Inl ValueError"
| "dval_zip f (DVector xs) (DScalar b) = Inl ValueError"

text \<open>
  One component of \<open>dsiteloglik[param]\<close>:
  \<open>sum(dstationarystate * L[-1] + dL[param][-1] * stationarystate, axis=-1) / sitelik\<close>.
\<close>

definition dsiteloglik_component :: "arr2 \<Rightarrow> arr2 \<Rightarrow> arr1 \<Rightarrow> arr2 \<Rightarrow> arr2 \<Rightarrow> arr1" where
  "dsiteloglik_component lroot stat sitelik dstat dlroot =
     map2 (\<lambda>row sl. sum_list row / sl) (eadd (emul dstat lroot) (emul dlroot stat)) sitelik"

definition dloglik_step :: "arr1 \<Rightarrow> string \<Rightarrow> TreeLikelihood \<Rightarrow> TreeLikelihood raised" where
  "dloglik_step sitelik param s =
     (case py_get (L s) (- 1) of Inl e \<Rightarrow> Inl (e, s) | Inr lroot \<Rightarrow>
      case dL s param of None \<Rightarrow> Inl (KeyError, s) | Some tbl \<Rightarrow>
      case py_get tbl (- 1) of Inl e \<Rightarrow> Inl (e, s) | Inr dlroot \<Rightarrow>
      case dval_zip (dsiteloglik_component lroot (stationarystate (model s)) sitelik)
             (dstationarystate (model s) param) dlroot of
        Inl e \<Rightarrow> Inl (e, s)
      | Inr d \<Rightarrow>
          Inr (s\<lparr>dsiteloglik := (dsiteloglik s)(param \<mapsto> d),
                 dloglik := (dloglik s)(param \<mapsto> map_dval sum_list d)\<rparr>))"

text \<open>
  The recomputation runs with every floating-point error raised: the logarithm of a site
  likelihood that is not positive raises FloatingPointError before \<open>siteloglik\<close> is
  assigned.
\<close>

definition updateInternals :: "TreeLikelihood \<Rightarrow> TreeLikelihood raised" where
  "updateInternals s =
     (case computePartialLikelihoods s of Inl e \<Rightarrow> Inl e | Inr s1 \<Rightarrow>
      case py_get (L s1) (- 1) of Inl e \<Rightarrow> Inl (e, s1) | Inr lroot \<Rightarrow>
      let sitelik = map sum_list (emul lroot (stationarystate (model s1))) in
      if list_ex (\<lambda>v. v \<le> 0) sitelik then Inl (FloatingPointError, s1)
      else
        let s2 = s1\<lparr>siteloglik := map ln sitelik\<rparr>;
            s3 = s2\<lparr>loglik := sum_list (siteloglik s2)\<rparr>;
            s4 = s3\<lparr>dsiteloglik := Map.empty, dloglik := Map.empty\<rparr>
        in for_loop (dloglik_step sitelik) (freeparams (model s4)) s4)"

section \<open>The update coordinator and the parameter projector\<close>

text \<open>
  \<open>updateParams(newvalues)\<close>. The dict \<open>newvalues\<close> is an association list. The model is
  shared by reference: what its \<open>updateParams\<close> makes of it is the model of the engine
  from then on, also when that call or a later statement raises.
\<close>

definition updateParams :: "model_update \<Rightarrow> TreeLikelihood \<Rightarrow> assignment \<Rightarrow> TreeLikelihood raised" where
  "updateParams upd s newvalues =
     (let modelparams = filter (\<lambda>(param, v). param \<in> set (freeparams (model s))) newvalues;
          otherparams = filter (\<lambda>(param, v). param \<notin> set (freeparams (model s))) newvalues
      in case (if modelparams \<noteq> [] then upd (model s) modelparams else Inr (model s)) of
           Inl (e, mdl) \<Rightarrow> Inl (e, s\<lparr>model := mdl\<rparr>)
         | Inr mdl \<Rightarrow>
             let s1 = s\<lparr>model := mdl\<rparr> in
             if otherparams \<noteq> [] then Inl (RuntimeError, s1)
             else if newvalues \<noteq> [] then
               (case updateInternals s1 of Inl e \<Rightarrow> Inl e
                | Inr s2 \<Rightarrow> Inr (s2\<lparr>p_paramsarray := None\<rparr>))
             else Inr s1)"

fun slot_name :: "slot \<Rightarrow> string" where
  "slot_name (Scalar param) = param"
| "slot_name (Component param pindex) = param"

text \<open>\<open>paramsarraybounds\<close>: one entry of \<open>model.PARAMLIMITS\<close> per item of \<open>_index_to_param\<close>.\<close>

fun bounds_loop ::
  "Model \<Rightarrow> (nat \<times> slot) list \<Rightarrow> (real option \<times> real option) list
     \<Rightarrow> error + (real option \<times> real option) list" where
  "bounds_loop mdl [] bounds = Inr bounds"
| "bounds_loop mdl ((i, param) # items) bounds =
     (case (case param of Scalar p \<Rightarrow> PARAMLIMITS mdl p
                        | Component p pindex \<Rightarrow> PARAMLIMITS mdl p) of
        None \<Rightarrow> Inl KeyError
      | Some b \<Rightarrow> bounds_loop mdl items (bounds @ [b]))"

definition paramsarraybounds :: "TreeLikelihood \<Rightarrow> error + (real option \<times> real option) list" where
  "paramsarraybounds s =
     (case bounds_loop (model s) (p_index_to_param s) [] of Inl e \<Rightarrow> Inl e
      | Inr bounds \<Rightarrow>
          if length bounds = length (p_index_to_param s) then Inr bounds
          else Inl AssertionError)"

text \<open>
  The getter of \<open>paramsarray\<close>. The value a slot reads from the model: a float for a name,
  the component of an array for a pair; a value of the other kind is outside the contract
  of the model and is reported as TypeError.
\<close>

fun slot_value :: "Model \<Rightarrow> slot \<Rightarrow> error + real" where
  "slot_value mdl (Scalar param) =
     (case getattr mdl param of PFloat v \<Rightarrow> Inr v | PArray a \<Rightarrow> Inl TypeError
      | POther \<Rightarrow> Inl TypeError)"
| "slot_value mdl (Component param pindex) =
     (case getattr mdl param of PFloat v \<Rightarrow> Inl TypeError
      | PArray a \<Rightarrow> py_get a (int pindex)
      | POther \<Rightarrow> Inl TypeError)"

fun fill_slot :: "nat \<times> slot \<Rightarrow> TreeLikelihood \<Rightarrow> TreeLikelihood raised" where
  "fill_slot (i, param) s =
     (case p_paramsarray s of None \<Rightarrow> Inl (TypeError, s)
      | Some arr \<Rightarrow>
          (case slot_value (model s) param of Inl e \<Rightarrow> Inl (e, s)
           | Inr v \<Rightarrow>
               if i < length arr then Inr (s\<lparr>p_paramsarray := Some (arr[i := v])\<rparr>)
               else Inl (IndexError, s)))"

text \<open>
  The array allocated by \<open>scipy.ndarray(shape=(nparams,))\<close> has arbitrary contents until
  the loop has written its slots; it is taken as zeros. The attribute \<open>_paramsarray\<close> is
  assigned before the loop runs, so a raise in the loop leaves it set.
\<close>

definition paramsarray :: "TreeLikelihood \<Rightarrow> (real list \<times> TreeLikelihood) raised" where
  "paramsarray s =
     (case p_paramsarray s of Some arr \<Rightarrow> Inr (arr, s)
      | None \<Rightarrow>
          let nparams = length (p_index_to_param s);
              s1 = s\<lparr>p_paramsarray := Some (replicate nparams 0)\<rparr>
          in case for_loop fill_slot (p_index_to_param s1) s1 of Inl e \<Rightarrow> Inl e
             | Inr s2 \<Rightarrow>
                 (case p_paramsarray s2 of None \<Rightarrow> Inl (TypeError, s2)
                  | Some arr \<Rightarrow> Inr (arr, s2)))"

text \<open>
  The setter of \<open>paramsarray\<close>. Its first loop fills the local dicts \<open>newvalues\<close> and
  \<open>vectorized_params\<close>, its second loop turns every collected vector into an array.
\<close>

fun collect_slot ::
  "real list \<Rightarrow> nat \<times> slot \<Rightarrow> assignment \<times> (string \<times> (nat \<times> real) list) list
     \<Rightarrow> error \<times> (assignment \<times> (string \<times> (nat \<times> real) list) list)
         + assignment \<times> (string \<times> (nat \<times> real) list) list" where
  "collect_slot value (i, param) (newvalues, vectorized_params) =
     (case py_get value (int i) of Inl e \<Rightarrow> Inl (e, (newvalues, vectorized_params))
      | Inr x \<Rightarrow>
          (case param of
             Scalar p \<Rightarrow> Inr (AList.update p (PFloat x) newvalues, vectorized_params)
           | Component iparam iparamindex \<Rightarrow>
               (case map_of vectorized_params iparam of
                  Some paramd \<Rightarrow>
                    if map_of paramd iparamindex \<noteq> None
                    then Inl (AssertionError, (newvalues, vectorized_params))
                    else Inr (newvalues,
                              AList.update iparam (AList.update iparamindex x paramd)
                                vectorized_params)
                | None \<Rightarrow>
                    Inr (newvalues,
                         AList.update iparam [(iparamindex, x)] vectorized_params))))"

fun assemble_vector ::
  "string \<times> (nat \<times> real) list \<Rightarrow> assignment \<Rightarrow> error \<times> assignment + assignment" where
  "assemble_vector (param, paramd) newvalues =
     (if set (map fst paramd) \<noteq> set [0..<length paramd] then Inl (AssertionError, newvalues)
      else
        (case those (map (map_of paramd) [0..<length paramd]) of
           None \<Rightarrow> Inl (KeyError, newvalues)
         | Some a \<Rightarrow> Inr (AList.update param (PArray a) newvalues)))"

text \<open>
  The comparison \<open>all(value == self._paramsarray)\<close> is element-wise on arrays of one
  length; on a snapshot of another length it raises.
\<close>

definition paramsarray_set :: "model_update \<Rightarrow> TreeLikelihood \<Rightarrow> real list \<Rightarrow> TreeLikelihood raised" where
  "paramsarray_set upd s value =
     (let nparams = length (p_index_to_param s) in
      if length value \<noteq> nparams then Inl (AssertionError, s)
      else
        (case (case p_paramsarray s of None \<Rightarrow> Inr False
               | Some c \<Rightarrow> if length c = length value then Inr (list_all2 (=) value c)
                           else Inl ValueError) of
           Inl e \<Rightarrow> Inl (e, s)
         | Inr True \<Rightarrow> Inr s
         | Inr False \<Rightarrow>
             (case for_loop (collect_slot value) (p_index_to_param s) ([], []) of
                Inl (e, d) \<Rightarrow> Inl (e, s)
              | Inr (nv, vectorized_params) \<Rightarrow>
                  (case for_loop assemble_vector vectorized_params nv of
                     Inl (e, d) \<Rightarrow> Inl (e, s)
                   | Inr newvalues \<Rightarrow>
                       (case updateParams upd s newvalues of Inl e \<Rightarrow> Inl e
                        | Inr s1 \<Rightarrow>
                            (case paramsarray s1 of Inl e \<Rightarrow> Inl e
                             | Inr (arr, s2) \<Rightarrow> Inr (s2\<lparr>p_paramsarray := Some arr\<rparr>)))))))"

text \<open>The property \<open>dloglikarray\<close>: the entries of \<open>dloglik\<close> in the order of the slots.\<close>

fun dloglik_slot :: "TreeLikelihood \<Rightarrow> slot \<Rightarrow> error + real" where
  "dloglik_slot s (Scalar param) =
     (case dloglik s param of None \<Rightarrow> Inl KeyError
      | Some (DScalar v) \<Rightarrow> Inr v
      | Some (DVector a) \<Rightarrow> Inl TypeError)"
| "dloglik_slot s (Component param pindex) =
     (case dloglik s param of None \<Rightarrow> Inl KeyError
      | Some (DScalar v) \<Rightarrow> Inl TypeError
      | Some (DVector a) \<Rightarrow> py_get a (int pindex))"

fun dloglikarray_loop :: "TreeLikelihood \<Rightarrow> (nat \<times> slot) list \<Rightarrow> real list \<Rightarrow> error + real list" where
  "dloglikarray_loop s [] arr = Inr arr"
| "dloglikarray_loop s ((i, param) # items) arr =
     (case dloglik_slot s param of Inl e \<Rightarrow> Inl e
      | Inr v \<Rightarrow> if i < length arr then dloglikarray_loop s items (arr[i := v])
                 else Inl IndexError)"

definition dloglikarray :: "TreeLikelihood \<Rightarrow> error + real list" where
  "dloglikarray s =
     dloglikarray_loop s (p_index_to_param s) (replicate (length (p_index_to_param s)) 0)"

section \<open>Construction: \<open>__init__\<close>\<close>

text \<open>
  The module \<open>phydmslib.constants\<close> is not among the sources: the number of codons and
  the table from codon strings to codon indices are parameters of the construction.
\<close>

record constants =
  N_CODON :: nat
  CODON_TO_INDEX :: "string \<Rightarrow> nat option"

text \<open>
  \<open>find_clades(order='postorder')\<close>: every clade after its children, the children in
  their order; each clade comes with its identity.
\<close>

fun postorder :: "path \<Rightarrow> clade \<Rightarrow> (path \<times> clade) list"
  and postorder_children :: "path \<Rightarrow> nat \<Rightarrow> clade list \<Rightarrow> (path \<times> clade) list" where
  "postorder p (Clade nm bl cs) = postorder_children p 0 cs @ [(p, Clade nm bl cs)]"
| "postorder_children p i [] = []"
| "postorder_children p i (c # cs) = postorder (p @ [i]) c @ postorder_children p (Suc i) cs"

definition is_terminal :: "clade \<Rightarrow> bool" where
  "is_terminal node = (clades node = [])"

text \<open>
  \<open>get_terminals\<close>, \<open>get_nonterminals\<close> and \<open>count_terminals\<close> of the tree. The engine uses
  the set of the names of the terminals and the two numbers only, which do not depend on
  the order of the traversal.
\<close>

definition get_terminals :: "clade \<Rightarrow> clade list" where
  "get_terminals tr = filter is_terminal (map snd (postorder [] tr))"

definition get_nonterminals :: "clade \<Rightarrow> clade list" where
  "get_nonterminals tr = filter (\<lambda>c. \<not> is_terminal c) (map snd (postorder [] tr))"

definition count_terminals :: "clade \<Rightarrow> nat" where
  "count_terminals tr = length (get_terminals tr)"

text \<open>\<open>scipy.full((nsites, N_CODON), v)\<close>.\<close>

definition full2 :: "nat \<Rightarrow> nat \<Rightarrow> real \<Rightarrow> arr2" where
  "full2 n k v = replicate n (replicate k v)"

text \<open>The loop that allocates \<open>dL[param]\<close> for every free parameter.\<close>

fun init_dL ::
  "constants \<Rightarrow> Model \<Rightarrow> nat \<Rightarrow> nat \<Rightarrow> string list \<Rightarrow> (string \<Rightarrow> arr2 dval list option)
     \<Rightarrow> error + (string \<Rightarrow> arr2 dval list option)" where
  "init_dL C mdl ni ns [] d = Inr d"
| "init_dL C mdl ni ns (param # params) d =
     (case getattr mdl param of
        PFloat v \<Rightarrow>
          init_dL C mdl ni ns params
            (d(param \<mapsto> replicate ni (DScalar (full2 ns (N_CODON C) (- 1)))))
      | PArray a \<Rightarrow>
          init_dL C mdl ni ns params
            (d(param \<mapsto> replicate ni (DVector (replicate (length a) (full2 ns (N_CODON C) (- 1))))))
      | POther \<Rightarrow> Inl ValueError)"

text \<open>
  The loop \<open>for r in range(self.nsites)\<close> over the codons of a tip sequence: it writes the
  row \<open>tips[n]\<close> and collects \<open>nodegaps\<close>.
\<close>

fun encode_sites ::
  "constants \<Rightarrow> string \<Rightarrow> nat list \<Rightarrow> nat list \<Rightarrow> nat list \<Rightarrow> error + nat list \<times> nat list" where
  "encode_sites C seq [] row nodegaps = Inr (row, nodegaps)"
| "encode_sites C seq (r # rs) row nodegaps =
     (let codon = take 3 (drop (3 * r) seq) in
      if codon = ''---'' then encode_sites C seq rs row (nodegaps @ [r])
      else
        (case CODON_TO_INDEX C codon of
           Some i \<Rightarrow>
             if r < length row then encode_sites C seq rs (row[r := i]) nodegaps
             else Inl IndexError
         | None \<Rightarrow> Inl ValueError))"

text \<open>
  The body of \<open>for (n, node) in enumerate(tipnodes + internalnodes)\<close>. \<open>alignment_d\<close> is
  the dict of the alignment.
\<close>

definition index_tip ::
  "constants \<Rightarrow> (string \<Rightarrow> string option) \<Rightarrow> nat \<Rightarrow> clade \<Rightarrow> TreeLikelihood
     \<Rightarrow> error + TreeLikelihood" where
  "index_tip C alignment_d n node s =
     (if \<not> n < ntips s then Inl AssertionError
      else
        (case (case name node of None \<Rightarrow> None | Some nm \<Rightarrow> alignment_d nm) of
           None \<Rightarrow> Inl KeyError
         | Some seq \<Rightarrow>
             if \<not> n < length (tips s) then Inl IndexError
             else
               (case encode_sites C seq [0..<nsites s] (tips s ! n) [] of
                  Inl e \<Rightarrow> Inl e
                | Inr (row, nodegaps) \<Rightarrow>
                    Inr (s\<lparr>tips := (tips s)[n := row], gaps := gaps s @ [nodegaps]\<rparr>))))"

definition index_internal :: "nat \<Rightarrow> path \<Rightarrow> clade \<Rightarrow> TreeLikelihood \<Rightarrow> error + TreeLikelihood" where
  "index_internal n p node s =
     (if \<not> n \<ge> ntips s then Inl AssertionError
      else if length (clades node) \<noteq> 2 then Inl AssertionError
      else
        let ni = n - ntips s in
        (case name_to_nodeindex s (p @ [0]) of None \<Rightarrow> Inl KeyError
         | Some nr \<Rightarrow>
             if \<not> ni < length (rdescend s) then Inl IndexError
             else
               (case name_to_nodeindex s (p @ [1]) of None \<Rightarrow> Inl KeyError
                | Some nl \<Rightarrow>
                    if \<not> ni < length (ldescend s) then Inl IndexError
                    else Inr (s\<lparr>rdescend := (rdescend s)[ni := int nr],
                                ldescend := (ldescend s)[ni := int nl]\<rparr>))))"

fun index_node ::
  "constants \<Rightarrow> (string \<Rightarrow> string option) \<Rightarrow> nat \<times> path \<times> clade \<Rightarrow> TreeLikelihood
     \<Rightarrow> TreeLikelihood raised" where
  "index_node C alignment_d (n, p, node) s =
     (case (if p \<noteq> [] then
              (if \<not> n < nnodes s - 1 then Inl AssertionError
               else if \<not> n < length (t s) then Inl IndexError
               else Inr (s\<lparr>t := (t s)[n := branch_length node]\<rparr>))
            else Inr s) of
        Inl e \<Rightarrow> Inl (e, s)
      | Inr s1 \<Rightarrow>
          (case (if is_terminal node then index_tip C alignment_d n node s1
                 else index_internal n p node s1) of
             Inl e \<Rightarrow> Inl (e, s1)
           | Inr s2 \<Rightarrow> Inr (s2\<lparr>name_to_nodeindex := (name_to_nodeindex s2)(p \<mapsto> n)\<rparr>)))"

text \<open>The loops that fill \<open>_index_to_param\<close>.\<close>

fun index_components ::
  "string \<Rightarrow> nat list \<Rightarrow> nat \<Rightarrow> (nat \<times> slot) list \<Rightarrow> nat \<times> (nat \<times> slot) list" where
  "index_components param [] i d = (i, d)"
| "index_components param (pindex # pindexes) i d =
     index_components param pindexes (i + 1) (AList.update i (Component param pindex) d)"

fun index_params ::
  "Model \<Rightarrow> string list \<Rightarrow> nat \<Rightarrow> (nat \<times> slot) list \<Rightarrow> error + nat \<times> (nat \<times> slot) list" where
  "index_params mdl [] i d = Inr (i, d)"
| "index_params mdl (param # params) i d =
     (case getattr mdl param of
        PFloat v \<Rightarrow> index_params mdl params (i + 1) (AList.update i (Scalar param) d)
      | PArray a \<Rightarrow>
          (case index_components param [0..<length a] i d of
             (i', d') \<Rightarrow> index_params mdl params i' d')
      | POther \<Rightarrow> Inl TypeError)"

text \<open>
  The attributes \<open>__init__\<close> assigns before its loop over the nodes, \<open>dl\<close> being the dict
  \<open>dL\<close> as allocated. The attributes that \<open>_updateInternals\<close> creates (\<open>siteloglik\<close>,
  \<open>loglik\<close>, \<open>dsiteloglik\<close>, \<open>dloglik\<close>) do not exist before its call; the record holds
  empty values for them until then.
\<close>

definition allocate ::
  "constants \<Rightarrow> clade \<Rightarrow> (string \<times> string) list \<Rightarrow> Model \<Rightarrow> (string \<Rightarrow> arr2 dval list option)
     \<Rightarrow> TreeLikelihood" where
  "allocate C tr al mdl dl =
     (let ns = m_nsites mdl;
          nint = length (get_nonterminals tr);
          nt = count_terminals tr;
          nn = nt + nint
      in \<lparr> model = mdl, nsites = ns, alignment = al, nseqs = length al,
           tree = tr, name_to_nodeindex = Map.empty,
           ninternal = nint, ntips = nt, nnodes = nn,
           rdescend = replicate nint (- 1), ldescend = replicate nint (- 1),
           t = replicate (nn - 1) (- 1),
           L = replicate nint (full2 ns (N_CODON C) (- 1)),
           dL = dl,
           tips = replicate nt (replicate ns 0), gaps = [],
           p_paramsarray = None, p_index_to_param = [], p_param_to_index = [],
           siteloglik = [], loglik = 0,
           dsiteloglik = Map.empty, dloglik = Map.empty \<rparr>)"

text \<open>The list \<open>tipnodes + internalnodes\<close> of the nodes in the order of their indices.\<close>

definition nodes_in_index_order :: "clade \<Rightarrow> (path \<times> clade) list" where
  "nodes_in_index_order tr =
     (let tipnodes = filter (\<lambda>(p, node). is_terminal node) (postorder [] tr);
          internalnodes = filter (\<lambda>(p, node). \<not> is_terminal node) (postorder [] tr)
      in tipnodes @ internalnodes)"

text \<open>\<open>__init__(tree, alignment, model)\<close>.\<close>

definition init :: "constants \<Rightarrow> clade \<Rightarrow> (string \<times> string) list \<Rightarrow> Model \<Rightarrow> error + TreeLikelihood" where
  "init C tr al mdl =
     (if \<not> list_all (\<lambda>(head, seq). length seq = 3 * m_nsites mdl) al then Inl AssertionError
      else if set (map (\<lambda>(head, seq). Some head) al) \<noteq> set (map name (get_terminals tr))
        then Inl AssertionError
      else if count_terminals tr \<noteq> length al then Inl AssertionError
      else
        (case init_dL C mdl (length (get_nonterminals tr)) (m_nsites mdl) (freeparams mdl)
                Map.empty of
           Inl e \<Rightarrow> Inl e
         | Inr dl \<Rightarrow>
             (case for_loop (index_node C (map_of (rev al)))
                     (enumerate 0 (nodes_in_index_order tr)) (allocate C tr al mdl dl) of
                Inl (e, s) \<Rightarrow> Inl e
              | Inr s1 \<Rightarrow>
                  if length (gaps s1) \<noteq> ntips s1 then Inl AssertionError
                  else
                    (case index_params mdl (freeparams mdl) 0 [] of Inl e \<Rightarrow> Inl e
                     | Inr (i, d) \<Rightarrow>
                         if i \<noteq> length d then Inl AssertionError
                         else
                           (case updateInternals
                                   (s1\<lparr>p_paramsarray := None, p_index_to_param := d,
                                       p_param_to_index :=
                                         fold (\<lambda>(x, y). AList.update y x) d []\<rparr>) of
                              Inl (e, s) \<Rightarrow> Inl e
                            | Inr s2 \<Rightarrow> Inr s2)))))"

section \<open>What an operation leaves unchanged\<close>

text \<open>The state an operation leaves behind, whether it returns or raises.\<close>

definition state_of :: "error \<times> 's + 's \<Rightarrow> 's" where
  "state_of r = (case r of Inl (e, s) \<Rightarrow> s | Inr s \<Rightarrow> s)"

lemma state_of_simps [simp]: "state_of (Inl (e, s)) = s" "state_of (Inr s) = s"
  by (simp_all add: state_of_def)

lemma for_loop_state_of:
  assumes "P s" and "\<And>x s. x \<in> set xs \<Longrightarrow> P s \<Longrightarrow> P (state_of (body x s))"
  shows "P (state_of (for_loop body xs s))"
  using assms
proof (induction xs arbitrary: s)
  case Nil
  then show ?case by simp
next
  case (Cons x xs)
  have step: "P (state_of (body x s))" using Cons.prems by simp
  show ?case
  proof (cases "body x s")
    case (Inl es)
    then show ?thesis using step by (cases es) simp
  next
    case (Inr s')
    then have "P s'" using step by simp
    then have "P (state_of (for_loop body xs s'))"
      using Cons.prems(2) by (intro Cons.IH) simp_all
    then show ?thesis using Inr by simp
  qed
qed

text \<open>The kernel rewrites the tables L and dL and nothing else.\<close>

definition kernel_frame :: "TreeLikelihood \<Rightarrow> TreeLikelihood \<Rightarrow> bool" where
  "kernel_frame s s' = (s' = s\<lparr>L := L s', dL := dL s'\<rparr>)"

lemma kernel_frame_refl [simp]: "kernel_frame s s"
  by (simp add: kernel_frame_def)

lemma kernel_frame_L [simp]: "kernel_frame s (s\<lparr>L := l\<rparr>)"
  by (simp add: kernel_frame_def)

lemma kernel_frame_dL [simp]: "kernel_frame s (s\<lparr>dL := d\<rparr>)"
  by (simp add: kernel_frame_def)

lemma kernel_frame_trans: "kernel_frame s s' \<Longrightarrow> kernel_frame s' s'' \<Longrightarrow> kernel_frame s s''"
  unfolding kernel_frame_def
  by (cases s, cases s', cases s'') simp

lemma kernel_frame_fields:
  assumes "kernel_frame s s'"
  shows "model s' = model s" "nsites s' = nsites s" "ntips s' = ntips s" "nnodes s' = nnodes s"
    "ninternal s' = ninternal s" "rdescend s' = rdescend s" "ldescend s' = ldescend s"
    "t s' = t s" "tips s' = tips s" "gaps s' = gaps s" "p_paramsarray s' = p_paramsarray s"
    "p_index_to_param s' = p_index_to_param s" "p_param_to_index s' = p_param_to_index s"
    "name_to_nodeindex s' = name_to_nodeindex s" "tree s' = tree s" "alignment s' = alignment s"
    "nseqs s' = nseqs s" "siteloglik s' = siteloglik s" "loglik s' = loglik s"
    "dsiteloglik s' = dsiteloglik s" "dloglik s' = dloglik s"
  using assms unfolding kernel_frame_def
  by (cases s, cases s', simp)+

lemma dL_step_frame: "kernel_frame s (state_of (dL_step ni a b param dr dl j s))"
  by (simp add: dL_step_def split: sum.splits option.splits)

lemma param_step_frame: "kernel_frame s (state_of (param_step ni r l param s))"
proof -
  have loop: "\<And>f xs. (\<And>x s'. kernel_frame s' (state_of (f x s'))) \<Longrightarrow>
      kernel_frame s (state_of (for_loop f xs s))"
    by (rule for_loop_state_of) (auto intro: kernel_frame_trans)
  show ?thesis
    by (auto simp: param_step_def dL_step_frame split: sum.splits intro!: loop)
qed

lemma node_step_frame: "kernel_frame s (state_of (node_step n s))"
proof -
  have loop: "\<And>f xs s0. kernel_frame s s0 \<Longrightarrow> (\<And>x s'. kernel_frame s' (state_of (f x s'))) \<Longrightarrow>
      kernel_frame s (state_of (for_loop f xs s0))"
    by (rule for_loop_state_of) (auto intro: kernel_frame_trans)
  show ?thesis
    by (auto simp: node_step_def Let_def param_step_frame split: sum.splits intro!: loop)
qed

lemma computePartialLikelihoods_frame:
  "kernel_frame s (state_of (computePartialLikelihoods s))"
  unfolding computePartialLikelihoods_def
  by (rule for_loop_state_of) (auto intro: kernel_frame_trans node_step_frame)

text \<open>
  A recomputation rewrites the tables and the quantities derived from them, and nothing
  else.
\<close>

definition update_frame :: "TreeLikelihood \<Rightarrow> TreeLikelihood \<Rightarrow> bool" where
  "update_frame s s' =
     (s' = s\<lparr>L := L s', dL := dL s', siteloglik := siteloglik s', loglik := loglik s',
            dsiteloglik := dsiteloglik s', dloglik := dloglik s'\<rparr>)"

lemma update_frame_refl [simp]: "update_frame s s"
  by (simp add: update_frame_def)

lemma update_frame_trans: "update_frame s s' \<Longrightarrow> update_frame s' s'' \<Longrightarrow> update_frame s s''"
  unfolding update_frame_def
  by (cases s, cases s', cases s'') simp

lemma kernel_frame_update_frame: "kernel_frame s s' \<Longrightarrow> update_frame s s'"
  unfolding update_frame_def kernel_frame_def
  by (cases s, cases s') simp

lemma update_frame_fields:
  assumes "update_frame s s'"
  shows "model s' = model s" "nsites s' = nsites s" "ntips s' = ntips s" "nnodes s' = nnodes s"
    "ninternal s' = ninternal s" "rdescend s' = rdescend s" "ldescend s' = ldescend s"
    "t s' = t s" "tips s' = tips s" "gaps s' = gaps s" "p_paramsarray s' = p_paramsarray s"
    "p_index_to_param s' = p_index_to_param s" "p_param_to_index s' = p_param_to_index s"
    "name_to_nodeindex s' = name_to_nodeindex s" "tree s' = tree s" "alignment s' = alignment s"
    "nseqs s' = nseqs s"
  using assms unfolding update_frame_def
  by (cases s, cases s', simp)+

lemma dloglik_step_frame: "update_frame s (state_of (dloglik_step sl param s))"
  by (simp add: dloglik_step_def update_frame_def split: sum.splits option.splits)

lemma updateInternals_frame: "update_frame s (state_of (updateInternals s))"
proof (cases "computePartialLikelihoods s")
  case (Inl es)
  then show ?thesis
    using computePartialLikelihoods_frame [of s]
    by (cases es) (simp add: updateInternals_def kernel_frame_update_frame)
next
  case (Inr s1)
  then have k: "update_frame s s1"
    using computePartialLikelihoods_frame [of s] by (simp add: kernel_frame_update_frame)
  have loop: "\<And>sl xs s0. update_frame s s0 \<Longrightarrow>
      update_frame s (state_of (for_loop (dloglik_step sl) xs s0))"
    by (rule for_loop_state_of) (auto intro: update_frame_trans dloglik_step_frame)
  have k4: "\<And>a b. update_frame s (s1\<lparr>siteloglik := a, loglik := b,
      dsiteloglik := Map.empty, dloglik := Map.empty\<rparr>)"
    using k unfolding update_frame_def by (cases s, cases s1) simp
  show ?thesis
    using Inr k
    by (auto simp: updateInternals_def Let_def split: sum.splits intro!: loop k4)
qed

section \<open>The flat parameter map\<close>

text \<open>
  The slots of one free parameter, in the order of their components: one slot for a
  float, k slots for an array of length k.
\<close>

definition slots_of :: "Model \<Rightarrow> string \<Rightarrow> slot list" where
  "slots_of mdl param =
     (case getattr mdl param of
        PFloat v \<Rightarrow> [Scalar param]
      | PArray a \<Rightarrow> map (Component param) [0..<length a]
      | POther \<Rightarrow> [])"

lemma update_fresh: "k \<notin> fst ` set d \<Longrightarrow> AList.update k v d = d @ [(k, v)]"
  by (induction d) auto

lemma index_components_append:
  "\<forall>k \<in> fst ` set d. k < i \<Longrightarrow>
   index_components param js i d = (i + length js, d @ enumerate i (map (Component param) js))"
proof (induction js arbitrary: i d)
  case Nil
  then show ?case by simp
next
  case (Cons j js)
  have fresh: "i \<notin> fst ` set d" using Cons.prems by auto
  have "\<forall>k \<in> fst ` set (d @ [(i, Component param j)]). k < i + 1"
    using Cons.prems by auto
  from Cons.IH [OF this] show ?case
    by (simp add: update_fresh [OF fresh])
qed

lemma index_params_append:
  "index_params mdl ps i d = Inr (i', d') \<Longrightarrow> \<forall>k \<in> fst ` set d. k < i \<Longrightarrow>
   i' = i + length (concat (map (slots_of mdl) ps)) \<and>
   d' = d @ enumerate i (concat (map (slots_of mdl) ps))"
proof (induction ps arbitrary: i d)
  case Nil
  then show ?case by simp
next
  case (Cons p ps)
  show ?case
  proof (cases "getattr mdl p")
    case (PFloat v)
    have fresh: "i \<notin> fst ` set d" using Cons.prems(2) by auto
    have b: "\<forall>k \<in> fst ` set (d @ [(i, Scalar p)]). k < i + 1"
      using Cons.prems(2) by auto
    have "index_params mdl ps (i + 1) (d @ [(i, Scalar p)]) = Inr (i', d')"
      using Cons.prems(1) PFloat by (simp add: update_fresh [OF fresh])
    from Cons.IH [OF this b] show ?thesis
      using PFloat by (simp add: slots_of_def)
  next
    case (PArray a)
    let ?d = "d @ enumerate i (map (Component p) [0..<length a])"
    have b: "\<forall>k \<in> fst ` set ?d. k < i + length a"
      using Cons.prems(2) by (auto simp: in_set_enumerate_eq)
    have "index_params mdl ps (i + length a) ?d = Inr (i', d')"
      using Cons.prems PArray by (simp add: index_components_append)
    from Cons.IH [OF this b] show ?thesis
      using PArray by (simp add: slots_of_def enumerate_append_eq add.assoc)
  next
    case POther
    then show ?thesis using Cons.prems by simp
  qed
qed

lemma bounds_loop_acc:
  "bounds_loop mdl items acc = Inr bs \<Longrightarrow>
   \<exists>new. bs = acc @ new \<and> map Some new = map (\<lambda>(i, sl). PARAMLIMITS mdl (slot_name sl)) items"
proof (induction items arbitrary: acc)
  case Nil
  then show ?case by simp
next
  case (Cons it items)
  obtain i sl where it: "it = (i, sl)" by (cases it)
  show ?case
  proof (cases "PARAMLIMITS mdl (slot_name sl)")
    case None
    then show ?thesis using Cons.prems it by (cases sl) simp_all
  next
    case (Some b)
    then have "bounds_loop mdl items (acc @ [b]) = Inr bs"
      using Cons.prems it by (cases sl) simp_all
    from Cons.IH [OF this] obtain new where "bs = (acc @ [b]) @ new"
      "map Some new = map (\<lambda>(i, sl). PARAMLIMITS mdl (slot_name sl)) items" by blast
    then show ?thesis using Some it by (intro exI [of _ "b # new"]) simp
  qed
qed

lemma bounds_loop_total:
  "\<forall>(i, sl) \<in> set items. PARAMLIMITS mdl (slot_name sl) \<noteq> None \<Longrightarrow>
   \<exists>bs. bounds_loop mdl items acc = Inr bs"
proof (induction items arbitrary: acc)
  case Nil
  then show ?case by simp
next
  case (Cons it items)
  obtain i sl where it: "it = (i, sl)" by (cases it)
  then obtain b where b: "PARAMLIMITS mdl (slot_name sl) = Some b"
    using Cons.prems by auto
  have "\<forall>(i, sl) \<in> set items. PARAMLIMITS mdl (slot_name sl) \<noteq> None"
    using Cons.prems by simp
  from Cons.IH [OF this, of "acc @ [b]"] show ?case
    using it b by (cases sl) simp_all
qed

section \<open>A small engine\<close>

text \<open>
  A tree of three tips, an alignment of one codon site with a gap, and a model of two
  free parameters (a float and an array of length two) over an alphabet of two codons.
  The transition kernel of the model follows its contract: the form for a tip is the
  column of the matrix selected by the codon of the tip, or all ones at a gap.
\<close>

definition ex_constants :: constants where
  "ex_constants = \<lparr> N_CODON = 2, CODON_TO_INDEX = [''ATG'' \<mapsto> 0, ''CTT'' \<mapsto> 1] \<rparr>"

definition ex_M :: "real \<Rightarrow> arr3" where
  "ex_M b = [[[1 - b, b], [b, 1 - b]]]"

definition ex_M_tip :: "real \<Rightarrow> nat list \<Rightarrow> nat list \<Rightarrow> arr2" where
  "ex_M_tip b tp gp =
     map (\<lambda>r. if r \<in> set gp then [1, 1] else map (\<lambda>row. row ! (tp ! r)) (ex_M b ! r))
       [0..<length tp]"

definition ex_getattr :: "real \<Rightarrow> string \<Rightarrow> paramvalue" where
  "ex_getattr k p =
     (if p = ''kappa'' then PFloat k else if p = ''eta'' then PArray [1 / 2, 1 / 4] else POther)"

definition ex_model :: Model where
  "ex_model =
     \<lparr> m_nsites = 1, freeparams = [''kappa'', ''eta''],
       getattr = ex_getattr 2,
       PARAMLIMITS = [''kappa'' \<mapsto> (Some (1 / 100), Some 100),
                      ''eta'' \<mapsto> (Some (1 / 100), Some (99 / 100))],
       stationarystate = [[1 / 2, 1 / 2]],
       dstationarystate =
         (\<lambda>p. if p = ''kappa'' then DScalar [[0, 0]] else DVector [[[1, - 1]], [[0, 0]]]),
       M = ex_M, M_tip = ex_M_tip,
       dM = (\<lambda>b p m. if p = ''kappa'' then DScalar [[[b, - b], [- b, b]]]
                       else DVector [[[[b, 0], [0, b]]], [[[0, b], [b, 0]]]]),
       dM_tip = (\<lambda>b p m tp gp. if p = ''kappa'' then DScalar [[b, - b]]
                               else DVector [[[b, 0]], [[0, b]]]) \<rparr>"

definition ex_tree :: clade where
  "ex_tree =
     Clade None 0
       [Clade None (1 / 20) [Clade (Some ''A'') (1 / 10) [], Clade (Some ''B'') (1 / 5) []],
        Clade (Some ''C'') (3 / 10) []]"

definition ex_alignment :: "(string \<times> string) list" where
  "ex_alignment = [(''A'', ''ATG''), (''B'', ''---''), (''C'', ''CTT'')]"

text \<open>The engine that the construction returns on them.\<close>

definition ex_engine :: TreeLikelihood where
  "ex_engine =
     \<lparr> model = ex_model, nsites = 1, alignment = ex_alignment, nseqs = 3, tree = ex_tree,
       name_to_nodeindex = [[0, 0] \<mapsto> 0, [0, 1] \<mapsto> 1, [1] \<mapsto> 2, [0] \<mapsto> 3, [] \<mapsto> 4],
       ninternal = 2, ntips = 3, nnodes = 5,
       rdescend = [0, 3], ldescend = [1, 2],
       t = [1 / 10, 1 / 5, 3 / 10, 1 / 20],
       L = [[[9 / 10, 1 / 10]], [[129 / 500, 49 / 500]]],
       dL = [''kappa'' \<mapsto> [DScalar [[7 / 25, - (3 / 25)]], DScalar [[87 / 250, - (7 / 50)]]],
             ''eta'' \<mapsto> [DVector [[[7 / 25, 0]], [[0, 3 / 25]]],
                         DVector [[[3513 / 10000, 133 / 10000]], [[33 / 10000, 1533 / 10000]]]]],
       tips = [[0], [0], [1]], gaps = [[], [0], []],
       p_paramsarray = None,
       p_index_to_param = [(0, Scalar ''kappa''), (1, Component ''eta'' 0), (2, Component ''eta'' 1)],
       p_param_to_index = [(Scalar ''kappa'', 0), (Component ''eta'' 0, 1), (Component ''eta'' 1, 2)],
       siteloglik = [ln (89 / 500)], loglik = ln (89 / 500),
       dsiteloglik = [''kappa'' \<mapsto> DScalar [52 / 89],
                      ''eta'' \<mapsto> DVector [[3423 / 1780], [783 / 1780]]],
       dloglik = [''kappa'' \<mapsto> DScalar (52 / 89),
                  ''eta'' \<mapsto> DVector [3423 / 1780, 783 / 1780]] \<rparr>"

text \<open>
  An update method for the model of the example: it stores a float given for
  \<open>kappa\<close> and ignores every other key.
\<close>

definition ex_update :: model_update where
  "ex_update mdl a =
     (case map_of a ''kappa'' of
        Some (PFloat k) \<Rightarrow> Inr (mdl\<lparr>getattr := ex_getattr k\<rparr>)
      | Some (PArray v) \<Rightarrow> Inl (ModelError, mdl)
      | Some POther \<Rightarrow> Inl (ModelError, mdl)
      | None \<Rightarrow> Inr mdl)"

section \<open>Successful constructions\<close>

definition with_index_map :: "TreeLikelihood \<Rightarrow> (nat \<times> slot) list \<Rightarrow> TreeLikelihood" where
  "with_index_map s1 d =
     s1\<lparr>p_paramsarray := None, p_index_to_param := d,
        p_param_to_index := fold (\<lambda>(x, y). AList.update y x) d []\<rparr>"

lemma init_Inr:
  assumes "init C tr al mdl = Inr s"
  obtains dl s1 i d where
    "list_all (\<lambda>(head, seq). length seq = 3 * m_nsites mdl) al"
    "set (map (\<lambda>(head, seq). Some head) al) = set (map name (get_terminals tr))"
    "count_terminals tr = length al"
    "init_dL C mdl (length (get_nonterminals tr)) (m_nsites mdl) (freeparams mdl) Map.empty = Inr dl"
    "for_loop (index_node C (map_of (rev al))) (enumerate 0 (nodes_in_index_order tr))
       (allocate C tr al mdl dl) = Inr s1"
    "length (gaps s1) = ntips s1"
    "index_params mdl (freeparams mdl) 0 [] = Inr (i, d)"
    "i = length d"
    "updateInternals (with_index_map s1 d) = Inr s"
  using assms unfolding init_def with_index_map_def
  by (auto split: if_splits sum.splits prod.splits)

text \<open>The loop over the nodes writes the index tables and the tip encoding, nothing else.\<close>

definition index_frame :: "TreeLikelihood \<Rightarrow> TreeLikelihood \<Rightarrow> bool" where
  "index_frame s s' =
     (s' = s\<lparr>t := t s', tips := tips s', gaps := gaps s', rdescend := rdescend s',
            ldescend := ldescend s', name_to_nodeindex := name_to_nodeindex s'\<rparr>)"

lemma index_frame_refl [simp]: "index_frame s s"
  by (simp add: index_frame_def)

lemma index_frame_trans: "index_frame s s' \<Longrightarrow> index_frame s' s'' \<Longrightarrow> index_frame s s''"
  unfolding index_frame_def
  by (cases s, cases s', cases s'') simp

lemma index_frame_fields:
  assumes "index_frame s s'"
  shows "model s' = model s" "nsites s' = nsites s" "ntips s' = ntips s" "nnodes s' = nnodes s"
    "ninternal s' = ninternal s" "L s' = L s" "dL s' = dL s"
    "p_paramsarray s' = p_paramsarray s" "p_index_to_param s' = p_index_to_param s"
    "tree s' = tree s" "alignment s' = alignment s" "nseqs s' = nseqs s"
  using assms unfolding index_frame_def
  by (cases s, cases s', simp)+

lemma index_tip_frame: "index_tip C ad n node s = Inr s' \<Longrightarrow> index_frame s s'"
  by (auto simp: index_tip_def index_frame_def split: if_splits option.splits sum.splits)

lemma index_internal_frame: "index_internal n p node s = Inr s' \<Longrightarrow> index_frame s s'"
  by (auto simp: index_internal_def index_frame_def Let_def split: if_splits option.splits)

lemma index_frame_t: "index_frame s (s\<lparr>t := x\<rparr>)"
  by (simp add: index_frame_def)

lemma index_frame_name: "index_frame s (s\<lparr>name_to_nodeindex := x\<rparr>)"
  by (simp add: index_frame_def)

lemma index_node_frame: "index_frame s (state_of (index_node C ad x s))"
proof -
  obtain n p node where x: "x = (n, p, node)" by (cases x)
  define s1 where "s1 = (if p \<noteq> [] \<and> n < nnodes s - 1 \<and> n < length (t s)
      then s\<lparr>t := (t s)[n := branch_length node]\<rparr> else s)"
  have f1: "index_frame s s1"
    by (simp add: s1_def index_frame_t)
  define r where "r = (if is_terminal node then index_tip C ad n node s1
                 else index_internal n p node s1)"
  have f2: "index_frame s1 s2" if "r = Inr s2" for s2
    using that index_tip_frame index_internal_frame unfolding r_def
    by (cases "is_terminal node") auto
  have "state_of (index_node C ad x s) = s \<or> state_of (index_node C ad x s) = s1 \<or>
    (\<exists>s2. r = Inr s2 \<and> state_of (index_node C ad x s) = s2\<lparr>name_to_nodeindex := (name_to_nodeindex s2)(p \<mapsto> n)\<rparr>)"
    unfolding x r_def s1_def by (simp split: sum.splits)
  then show ?thesis
    using f1 f2 index_frame_name index_frame_trans by (metis index_frame_refl)
qed

lemma index_loop_frame: "index_frame s (state_of (for_loop (index_node C ad) xs s))"
  by (rule for_loop_state_of) (auto intro: index_frame_trans index_node_frame)

text \<open>The construction on the small engine, evaluated.\<close>

lemmas ex_defs = ex_constants_def ex_M_def ex_M_tip_def ex_model_def ex_tree_def ex_alignment_def
  ex_getattr_def

lemmas eval_defs = init_def allocate_def nodes_in_index_order_def
  get_terminals_def get_nonterminals_def count_terminals_def is_terminal_def full2_def
  index_tip_def index_internal_def updateInternals_def computePartialLikelihoods_def node_step_def
  param_step_def dL_step_def child_of_def py_get_def emul_def eadd_def eadd_scalar_def
  broadcastMatrixVectorMultiply_def dloglik_step_def dsiteloglik_component_def Let_def
  enumerate_eq_zip upt_conv_Cons numeral_2_eq_2 numeral_3_eq_3

lemma ex_init: "init ex_constants ex_tree ex_alignment ex_model = Inr ex_engine"
  by (simp add: ex_defs eval_defs ex_engine_def eval_nat_numeral)

lemma init_model_index:
  assumes "init C tr al mdl = Inr s"
  shows "model s = mdl"
    and "p_index_to_param s = enumerate 0 (concat (map (slots_of mdl) (freeparams mdl)))"
proof -
  from assms obtain dl s1 i d where
    loop: "for_loop (index_node C (map_of (rev al))) (enumerate 0 (nodes_in_index_order tr))
       (allocate C tr al mdl dl) = Inr s1"
    and ip: "index_params mdl (freeparams mdl) 0 [] = Inr (i, d)"
    and up: "updateInternals (with_index_map s1 d) = Inr s"
    by (rule init_Inr)
  have fr: "update_frame (with_index_map s1 d) s"
    using updateInternals_frame [of "with_index_map s1 d"] up by simp
  have "index_frame (allocate C tr al mdl dl) s1"
    using index_loop_frame [of "allocate C tr al mdl dl" C "map_of (rev al)"
        "enumerate 0 (nodes_in_index_order tr)"] loop by simp
  from index_frame_fields(1) [OF this] have "model s1 = mdl"
    by (simp add: allocate_def Let_def)
  then show "model s = mdl"
    using update_frame_fields(1) [OF fr] by (simp add: with_index_map_def)
  have "d = [] @ enumerate 0 (concat (map (slots_of mdl) (freeparams mdl)))"
    using index_params_append [OF ip] by simp
  then show "p_index_to_param s = enumerate 0 (concat (map (slots_of mdl) (freeparams mdl)))"
    using update_frame_fields(12) [OF fr] by (simp add: with_index_map_def)
qed

lemma paramsarraybounds_Inr:
  assumes "paramsarraybounds s = Inr bs"
  shows "map Some bs = map (\<lambda>(i, sl). PARAMLIMITS (model s) (slot_name sl)) (p_index_to_param s)"
proof -
  from assms have "bounds_loop (model s) (p_index_to_param s) [] = Inr bs"
    by (auto simp: paramsarraybounds_def split: sum.splits if_splits)
  from bounds_loop_acc [OF this] show ?thesis by simp
qed

lemma paramsarraybounds_total:
  assumes "\<forall>(i, sl) \<in> set (p_index_to_param s). PARAMLIMITS (model s) (slot_name sl) \<noteq> None"
  shows "\<exists>bs. paramsarraybounds s = Inr bs"
proof -
  from bounds_loop_total [OF assms, of "[]"] obtain bs
    where b: "bounds_loop (model s) (p_index_to_param s) [] = Inr bs" by blast
  from bounds_loop_acc [OF b] have "length (map Some bs) = length (p_index_to_param s)"
    by simp
  then show ?thesis using b by (simp add: paramsarraybounds_def)
qed

lemma slots_of_name: "sl \<in> set (slots_of mdl param) \<Longrightarrow> slot_name sl = param"
  by (auto simp: slots_of_def split: paramvalue.splits)

text \<open>
  C7. In an engine that the construction returns, the flat parameter map lists the free
  parameters in the order the model declares them, with one slot for a float parameter
  and k consecutive slots, in the order of the components 0 .. k-1, for an array parameter
  of length k; the slots are numbered from 0. The bounds \<open>paramsarraybounds\<close> have one
  pair per slot, the entry of \<open>PARAMLIMITS\<close> for the name of the parameter of the slot (the
  same pair for every component of an array parameter), and they are returned whenever
  \<open>PARAMLIMITS\<close> has an entry for every free parameter.
\<close>

theorem flat_parameter_map:
  assumes "init C tr al mdl = Inr s"
  shows "p_index_to_param s = enumerate 0 (concat (map (slots_of mdl) (freeparams mdl)))
    \<and> (\<forall>bs. paramsarraybounds s = Inr bs \<longrightarrow>
          length bs = length (p_index_to_param s) \<and>
          map Some bs = map (\<lambda>(i, sl). PARAMLIMITS mdl (slot_name sl)) (p_index_to_param s))
    \<and> ((\<forall>param \<in> set (freeparams mdl). PARAMLIMITS mdl param \<noteq> None) \<longrightarrow>
          (\<exists>bs. paramsarraybounds s = Inr bs))"
proof -
  have ix: "p_index_to_param s = enumerate 0 (concat (map (slots_of mdl) (freeparams mdl)))"
    by (rule init_model_index(2) [OF assms])
  have m: "model s = mdl" by (rule init_model_index(1) [OF assms])
  have bounds: "length bs = length (p_index_to_param s) \<and>
          map Some bs = map (\<lambda>(i, sl). PARAMLIMITS mdl (slot_name sl)) (p_index_to_param s)"
    if b: "paramsarraybounds s = Inr bs" for bs
  proof -
    from paramsarraybounds_Inr [OF b]
    have e: "map Some bs = map (\<lambda>(i, sl). PARAMLIMITS mdl (slot_name sl)) (p_index_to_param s)"
      using m by simp
    from arg_cong [OF e, of length] have "length bs = length (p_index_to_param s)"
      by simp
    with e show ?thesis by simp
  qed
  have total: "\<exists>bs. paramsarraybounds s = Inr bs"
    if lim: "\<forall>param \<in> set (freeparams mdl). PARAMLIMITS mdl param \<noteq> None"
  proof -
    have "PARAMLIMITS (model s) (slot_name sl) \<noteq> None"
      if mem: "(i, sl) \<in> set (p_index_to_param s)" for i sl
    proof -
      from mem have "i < length (concat (map (slots_of mdl) (freeparams mdl)))
          \<and> sl = concat (map (slots_of mdl) (freeparams mdl)) ! i"
        unfolding ix by (simp add: in_set_enumerate_eq)
      then have "sl \<in> set (concat (map (slots_of mdl) (freeparams mdl)))"
        using nth_mem by blast
      then obtain param where p: "param \<in> set (freeparams mdl)" "sl \<in> set (slots_of mdl param)"
        unfolding set_concat by auto
      from slots_of_name [OF p(2)] p(1) lim show ?thesis
        using m by simp
    qed
    then have "\<forall>(i, sl) \<in> set (p_index_to_param s). PARAMLIMITS (model s) (slot_name sl) \<noteq> None"
      by blast
    then show ?thesis
      by (rule paramsarraybounds_total)
  qed
  from ix bounds total show ?thesis by blast
qed

theorem flat_parameter_map_witness:
  "init ex_constants ex_tree ex_alignment ex_model = Inr ex_engine
   \<and> p_index_to_param ex_engine
       = [(0, Scalar ''kappa''), (1, Component ''eta'' 0), (2, Component ''eta'' 1)]
   \<and> paramsarraybounds ex_engine
       = Inr [(Some (1 / 100), Some 100), (Some (1 / 100), Some (99 / 100)),
              (Some (1 / 100), Some (99 / 100))]"
proof -
  have lim: "\<forall>param \<in> set (freeparams ex_model). PARAMLIMITS ex_model param \<noteq> None"
    by (simp add: ex_model_def)
  from flat_parameter_map [OF ex_init] lim
  obtain bs where b: "paramsarraybounds ex_engine = Inr bs"
    and e: "map Some bs = map (\<lambda>(i, sl). PARAMLIMITS ex_model (slot_name sl)) (p_index_to_param ex_engine)"
    by blast
  have ix: "p_index_to_param ex_engine
       = [(0, Scalar ''kappa''), (1, Component ''eta'' 0), (2, Component ''eta'' 1)]"
    by (simp add: ex_engine_def)
  from e have "map Some bs = map Some [(Some (1 / 100), Some 100), (Some (1 / 100), Some (99 / 100)),
              (Some (1 / 100), Some (99 / 100))]"
    unfolding ix by (simp add: ex_model_def)
  then have "bs = [(Some (1 / 100), Some 100), (Some (1 / 100), Some (99 / 100)),
              (Some (1 / 100), Some (99 / 100))]"
    by (simp only: inj_map_eq_map [OF inj_Some])
  with b ix ex_init show ?thesis by simp
qed

section \<open>The flat parameter array and the update protocol\<close>

lemma fill_slot_cache:
  assumes "\<exists>arr. length arr = n \<and> s' = s\<lparr>p_paramsarray := Some arr\<rparr>"
  shows "\<exists>arr. length arr = n \<and> state_of (fill_slot x s') = s\<lparr>p_paramsarray := Some arr\<rparr>"
proof -
  from assms obtain arr where a: "length arr = n" "s' = s\<lparr>p_paramsarray := Some arr\<rparr>"
    by blast
  obtain i param where x: "x = (i, param)" by (cases x)
  show ?thesis
  proof (cases "slot_value (model s') param")
    case (Inl e)
    then show ?thesis using a x by auto
  next
    case (Inr v)
    show ?thesis
    proof (cases "i < length arr")
      case True
      then have "state_of (fill_slot x s') = s\<lparr>p_paramsarray := Some (arr[i := v])\<rparr>"
        using a x Inr by simp
      then show ?thesis using a(1) by (intro exI [of _ "arr[i := v]"]) simp
    next
      case False
      then show ?thesis using a x Inr by auto
    qed
  qed
qed

lemma paramsarray_Inr:
  assumes "paramsarray s = Inr (v, s1)"
    and "case p_paramsarray s of None \<Rightarrow> True | Some c \<Rightarrow> length c = length (p_index_to_param s)"
  shows "length v = length (p_index_to_param s) \<and> s1 = s\<lparr>p_paramsarray := Some v\<rparr>"
proof (cases "p_paramsarray s")
  case (Some c)
  then have "v = c" "s1 = s" using assms(1) by (simp_all add: paramsarray_def)
  then show ?thesis using Some assms(2) by simp
next
  case None
  let ?n = "length (p_index_to_param s)"
  let ?s0 = "s\<lparr>p_paramsarray := Some (replicate ?n 0)\<rparr>"
  have inv: "\<exists>arr. length arr = ?n \<and>
      state_of (for_loop fill_slot (p_index_to_param s) ?s0) = s\<lparr>p_paramsarray := Some arr\<rparr>"
    by (rule for_loop_state_of [where P = "\<lambda>s'. \<exists>arr. length arr = ?n \<and> s' = s\<lparr>p_paramsarray := Some arr\<rparr>"])
      (auto intro: fill_slot_cache exI [of _ "replicate ?n 0"])
  from assms(1) None obtain s2 where
    l: "for_loop fill_slot (p_index_to_param s) ?s0 = Inr s2"
    and r: "p_paramsarray s2 = Some v" "s1 = s2"
    by (auto simp: paramsarray_def Let_def split: sum.splits option.splits)
  from inv l obtain arr where arr: "length arr = ?n" "s2 = s\<lparr>p_paramsarray := Some arr\<rparr>"
    by auto
  with r show ?thesis by simp
qed

lemma paramsarray_set_same:
  assumes "p_paramsarray s = Some c" and "length c = length (p_index_to_param s)"
  shows "paramsarray_set upd s c = Inr s"
  using assms by (simp add: paramsarray_set_def Let_def list_all2_same)

text \<open>
  C6. In an engine whose flat-parameter snapshot, when there is one, has one entry per
  slot, reading \<open>paramsarray\<close> and assigning the array read back is a no-op: the read
  changes nothing but the snapshot, the assignment returns the engine as the read left it,
  whatever the update method of the model is (it is not called, and the kernel does not
  run), so that L, dL, siteloglik, loglik, dsiteloglik, dloglik and dloglikarray are
  the same. More generally, assigning an array equal to the snapshot is a no-op.
\<close>

theorem paramsarray_roundtrip:
  assumes "case p_paramsarray s of None \<Rightarrow> True | Some c \<Rightarrow> length c = length (p_index_to_param s)"
  shows "(\<forall>v s1. paramsarray s = Inr (v, s1) \<longrightarrow>
            s1 = s\<lparr>p_paramsarray := Some v\<rparr> \<and> paramsarray_set upd s1 v = Inr s1 \<and>
            dloglikarray s1 = dloglikarray s)
       \<and> (\<forall>c. p_paramsarray s = Some c \<longrightarrow> paramsarray_set upd s c = Inr s)"
proof (intro conjI allI impI)
  fix v s1
  assume g: "paramsarray s = Inr (v, s1)"
  from paramsarray_Inr [OF g assms]
  have l: "length v = length (p_index_to_param s)" and s1: "s1 = s\<lparr>p_paramsarray := Some v\<rparr>"
    by simp_all
  show "s1 = s\<lparr>p_paramsarray := Some v\<rparr>" by (rule s1)
  show "paramsarray_set upd s1 v = Inr s1"
    by (rule paramsarray_set_same) (simp_all add: s1 l)
  have "dloglikarray_loop (s\<lparr>p_paramsarray := Some v\<rparr>) items arr = dloglikarray_loop s items arr"
    for items arr
  proof (induction items arbitrary: arr)
    case Nil
    show ?case by simp
  next
    case (Cons it items)
    obtain i sl where it: "it = (i, sl)" by (cases it)
    have "dloglik_slot (s\<lparr>p_paramsarray := Some v\<rparr>) sl = dloglik_slot s sl"
      by (cases sl) simp_all
    then show ?case using Cons.IH it by (simp split: sum.splits)
  qed
  then show "dloglikarray s1 = dloglikarray s"
    by (simp add: dloglikarray_def s1)
next
  fix c
  assume "p_paramsarray s = Some c"
  then show "paramsarray_set upd s c = Inr s"
    using assms by (intro paramsarray_set_same) simp_all
qed

lemma ex_paramsarray:
  "paramsarray ex_engine = Inr ([2, 1 / 2, 1 / 4], ex_engine\<lparr>p_paramsarray := Some [2, 1 / 2, 1 / 4]\<rparr>)"
  by (simp add: paramsarray_def ex_engine_def ex_model_def ex_getattr_def py_get_def Let_def
      eval_nat_numeral)

theorem paramsarray_roundtrip_witness:
  "(case p_paramsarray ex_engine of None \<Rightarrow> True
      | Some c \<Rightarrow> length c = length (p_index_to_param ex_engine))
   \<and> paramsarray ex_engine
       = Inr ([2, 1 / 2, 1 / 4], ex_engine\<lparr>p_paramsarray := Some [2, 1 / 2, 1 / 4]\<rparr>)
   \<and> paramsarray_set (\<lambda>mdl a. Inl (ModelError, mdl))
         (ex_engine\<lparr>p_paramsarray := Some [2, 1 / 2, 1 / 4]\<rparr>) [2, 1 / 2, 1 / 4]
       = Inr (ex_engine\<lparr>p_paramsarray := Some [2, 1 / 2, 1 / 4]\<rparr>)"
proof -
  have h: "case p_paramsarray ex_engine of None \<Rightarrow> True
      | Some c \<Rightarrow> length c = length (p_index_to_param ex_engine)"
    by (simp add: ex_engine_def)
  from paramsarray_roundtrip [OF h, of "\<lambda>mdl a. Inl (ModelError, mdl)"] ex_paramsarray h
  show ?thesis by simp
qed

text \<open>
  C5, as the code has it. For every assignment with at least one key that is not in
  \<open>model.freeparams\<close>, \<open>updateParams\<close> raises, and every attribute of the engine but the
  model is left as it was: the kernel has not run and the snapshot is kept. The model
  keys of the assignment, when there are any, are forwarded to the update method of the
  model before the error for the other keys is raised: the model is then what that method
  made of it. With no model key in the assignment the error is RuntimeError and the
  engine, its model included, is unchanged.
\<close>

theorem updateParams_non_model_key:
  assumes "\<exists>(param, v) \<in> set newvalues. param \<notin> set (freeparams (model s))"
  shows "\<exists>e s'. updateParams upd s newvalues = Inl (e, s') \<and> s' = s\<lparr>model := model s'\<rparr>
      \<and> (filter (\<lambda>(param, v). param \<in> set (freeparams (model s))) newvalues = [] \<longrightarrow>
            e = RuntimeError \<and> s' = s)
      \<and> (\<forall>mdl. filter (\<lambda>(param, v). param \<in> set (freeparams (model s))) newvalues \<noteq> [] \<and>
            upd (model s) (filter (\<lambda>(param, v). param \<in> set (freeparams (model s))) newvalues)
              = Inr mdl \<longrightarrow>
            e = RuntimeError \<and> s' = s\<lparr>model := mdl\<rparr>)"
proof -
  let ?mp = "filter (\<lambda>(param, v). param \<in> set (freeparams (model s))) newvalues"
  let ?op = "filter (\<lambda>(param, v). param \<notin> set (freeparams (model s))) newvalues"
  from assms have other: "?op \<noteq> []"
    by (auto simp: filter_empty_conv)
  show ?thesis
  proof (cases "?mp = []")
    case True
    then have "updateParams upd s newvalues = Inl (RuntimeError, s)"
      using other by (simp add: updateParams_def Let_def)
    then show ?thesis using True by simp
  next
    case False
    show ?thesis
    proof (cases "upd (model s) ?mp")
      case (Inl em)
      obtain e mdl where em: "em = (e, mdl)" by (cases em)
      have "updateParams upd s newvalues = Inl (e, s\<lparr>model := mdl\<rparr>)"
        using False Inl em by (simp add: updateParams_def Let_def)
      then show ?thesis using False Inl by simp
    next
      case (Inr mdl)
      have "updateParams upd s newvalues = Inl (RuntimeError, s\<lparr>model := mdl\<rparr>)"
        using False Inr other by (simp add: updateParams_def Let_def)
      then show ?thesis using False Inr by simp
    qed
  qed
qed

text \<open>
  The model is not left unchanged in general: on the small engine, the assignment of 3
  to \<open>kappa\<close> together with a key that is no free parameter raises RuntimeError and
  leaves \<open>kappa\<close> at 3 in the model, where it was 2.
\<close>

theorem updateParams_non_model_key_counterexample:
  "updateParams ex_update ex_engine [(''kappa'', PFloat 3), (''bogus'', PFloat 1)]
     = Inl (RuntimeError, ex_engine\<lparr>model := ex_model\<lparr>getattr := ex_getattr 3\<rparr>\<rparr>)
   \<and> ''bogus'' \<notin> set (freeparams (model ex_engine))
   \<and> getattr (model ex_engine) ''kappa'' = PFloat 2
   \<and> getattr (model (ex_engine\<lparr>model := ex_model\<lparr>getattr := ex_getattr 3\<rparr>\<rparr>)) ''kappa'' = PFloat 3"
  by (simp add: updateParams_def ex_update_def ex_engine_def ex_model_def ex_getattr_def Let_def)

theorem updateParams_non_model_key_witness:
  "(\<exists>(param, v) \<in> set [(''kappa'', PFloat 3), (''bogus'', PFloat 1)].
       param \<notin> set (freeparams (model ex_engine)))
   \<and> updateParams ex_update ex_engine [(''bogus'', PFloat 1)] = Inl (RuntimeError, ex_engine)
   \<and> (\<exists>e s'. updateParams ex_update ex_engine [(''kappa'', PFloat 3), (''bogus'', PFloat 1)]
         = Inl (e, s') \<and> L s' = L ex_engine \<and> loglik s' = loglik ex_engine)"
proof -
  have h: "\<exists>(param, v) \<in> set [(''kappa'', PFloat 3), (''bogus'', PFloat 1)].
       param \<notin> set (freeparams (model ex_engine))"
    by (simp add: ex_engine_def ex_model_def)
  have h1: "\<exists>(param, v) \<in> set [(''bogus'', PFloat 1)].
       param \<notin> set (freeparams (model ex_engine))"
    by (simp add: ex_engine_def ex_model_def)
  have f1: "filter (\<lambda>(param, v). param \<in> set (freeparams (model ex_engine))) [(''bogus'', PFloat 1)] = []"
    by (simp add: ex_engine_def ex_model_def)
  from updateParams_non_model_key [OF h1, of ex_update] f1
  have a: "updateParams ex_update ex_engine [(''bogus'', PFloat 1)] = Inl (RuntimeError, ex_engine)"
    by auto
  from updateParams_non_model_key [OF h, of ex_update]
  obtain e s' where r: "updateParams ex_update ex_engine [(''kappa'', PFloat 3), (''bogus'', PFloat 1)]
         = Inl (e, s')" and fr: "s' = ex_engine\<lparr>model := model s'\<rparr>"
    by blast
  from fr have "L s' = L ex_engine" "loglik s' = loglik ex_engine"
    by (cases s', cases ex_engine, simp)+
  with h a r show ?thesis by blast
qed

section \<open>The traversal of the tree and the loop over the nodes\<close>

lemma postorder_paths:
  "distinct (map fst (postorder p c)) \<and> (\<forall>q \<in> fst ` set (postorder p c). \<exists>q'. q = p @ q')"
  "distinct (map fst (postorder_children p i cs)) \<and>
     (\<forall>q \<in> fst ` set (postorder_children p i cs). \<exists>j q'. i \<le> j \<and> q = p @ j # q')"
proof (induction p c and p i cs rule: postorder_postorder_children.induct)
  case (1 p nm bl cs)
  then show ?case by fastforce
next
  case (2 p i)
  show ?case by simp
next
  case (3 p i c cs)
  have disj: "fst ` set (postorder (p @ [i]) c) \<inter> fst ` set (postorder_children p (Suc i) cs) = {}"
  proof (rule ccontr)
    assume "\<not> ?thesis"
    then obtain q where a: "q \<in> fst ` set (postorder (p @ [i]) c)"
      and b: "q \<in> fst ` set (postorder_children p (Suc i) cs)" by blast
    from a 3(1) obtain q' where "q = (p @ [i]) @ q'" by blast
    moreover from b 3(2) obtain j q'' where "Suc i \<le> j" "q = p @ j # q''" by blast
    ultimately show False by simp
  qed
  have "\<exists>j q'. i \<le> j \<and> q = p @ j # q'"
    if "q \<in> fst ` set (postorder (p @ [i]) c @ postorder_children p (Suc i) cs)" for q
  proof -
    from that consider "q \<in> fst ` set (postorder (p @ [i]) c)"
      | "q \<in> fst ` set (postorder_children p (Suc i) cs)" by auto
    then show ?thesis
    proof cases
      case 1
      with 3(1) obtain q' where "q = (p @ [i]) @ q'" by blast
      then show ?thesis by auto
    next
      case 2
      with 3(2) obtain j q' where "Suc i \<le> j" "q = p @ j # q'" by blast
      then show ?thesis by (intro exI [of _ j] exI [of _ q']) simp
    qed
  qed
  then show ?case using 3 disj by simp
qed

lemma postorder_last: "postorder p c \<noteq> [] \<and> last (postorder p c) = (p, c)"
  by (cases c) simp

lemma nodes_in_index_order_facts:
  shows nodes_length: "length (nodes_in_index_order tr) = count_terminals tr + length (get_nonterminals tr)"
    and nodes_distinct: "distinct (map fst (nodes_in_index_order tr))"
    and nodes_terminal: "j < length (nodes_in_index_order tr) \<Longrightarrow>
          is_terminal (snd (nodes_in_index_order tr ! j)) \<longleftrightarrow> j < count_terminals tr"
    and nodes_set: "set (nodes_in_index_order tr) = set (postorder [] tr)"
proof -
  let ?po = "postorder [] tr"
  let ?tn = "filter (\<lambda>(p, node). is_terminal node) ?po"
  let ?in = "filter (\<lambda>(p, node). \<not> is_terminal node) ?po"
  have xs: "nodes_in_index_order tr = ?tn @ ?in"
    by (simp add: nodes_in_index_order_def)
  have nt: "count_terminals tr = length ?tn"
    by (simp add: count_terminals_def get_terminals_def filter_map comp_def case_prod_unfold)
  have ni: "length (get_nonterminals tr) = length ?in"
    by (simp add: get_nonterminals_def filter_map comp_def case_prod_unfold)
  show "length (nodes_in_index_order tr) = count_terminals tr + length (get_nonterminals tr)"
    by (simp add: xs nt ni)
  have d: "distinct (map fst ?po)" using postorder_paths(1) by blast
  show "distinct (map fst (nodes_in_index_order tr))"
    unfolding xs using d by (auto simp: distinct_map_filter dest: eq_key_imp_eq_value)
  show "set (nodes_in_index_order tr) = set ?po"
    unfolding xs by auto
  assume j: "j < length (nodes_in_index_order tr)"
  show "is_terminal (snd (nodes_in_index_order tr ! j)) \<longleftrightarrow> j < count_terminals tr"
  proof (cases "j < length ?tn")
    case True
    have "?tn ! j \<in> set ?tn" by (rule nth_mem [OF True])
    then have "is_terminal (snd (?tn ! j))" by (auto simp: case_prod_unfold)
    then show ?thesis using True by (simp add: xs nt nth_append)
  next
    case False
    then have l: "j - length ?tn < length ?in" using j by (simp add: xs)
    have "?in ! (j - length ?tn) \<in> set ?in" by (rule nth_mem [OF l])
    then have "\<not> is_terminal (snd (?in ! (j - length ?tn)))" by (auto simp: case_prod_unfold)
    then show ?thesis using False by (simp add: xs nt nth_append)
  qed
qed

lemma nodes_last:
  "nodes_in_index_order tr \<noteq> [] \<and> last (nodes_in_index_order tr) = ([], tr)"
proof (cases "is_terminal tr")
  case True
  then obtain nm bl where "tr = Clade nm bl []"
    by (cases tr) (simp add: is_terminal_def)
  then show ?thesis
    by (simp add: nodes_in_index_order_def is_terminal_def)
next
  case False
  obtain ys where po: "postorder [] tr = ys @ [([], tr)]"
    using postorder_last [of "[]" tr] by (metis append_butlast_last_id)
  show ?thesis
    using False by (simp add: nodes_in_index_order_def po)
qed

lemma for_loop_enumerate:
  assumes "for_loop body (enumerate i xs) s = Inr s'"
    and "I i s"
    and "\<And>k s s'. i \<le> k \<Longrightarrow> k < i + length xs \<Longrightarrow> I k s \<Longrightarrow>
           body (k, xs ! (k - i)) s = Inr s' \<Longrightarrow> I (Suc k) s'"
  shows "I (i + length xs) s'"
  using assms
proof (induction xs arbitrary: i s)
  case Nil
  then show ?case by simp
next
  case (Cons x xs)
  from Cons.prems(1) obtain s1 where b: "body (i, x) s = Inr s1"
    and l: "for_loop body (enumerate (Suc i) xs) s1 = Inr s'"
    by (auto split: sum.splits)
  have "I (Suc i) s1"
    using Cons.prems(3) [of i s s1] Cons.prems(2) b by simp
  moreover have "I (Suc k) t'" if "Suc i \<le> k" "k < Suc i + length xs" "I k t0"
    "body (k, xs ! (k - Suc i)) t0 = Inr t'" for k t0 t'
  proof -
    from that(1) have "(x # xs) ! (k - i) = xs ! (k - Suc i)"
      by (simp add: nth_Cons') 
    then show ?thesis using Cons.prems(3) [of k t0 t'] that by simp
  qed
  ultimately have "I (Suc i + length xs) s'"
    using l by (intro Cons.IH [of "Suc i" s1]) auto
  then show ?case by simp
qed

section \<open>The tip encoder\<close>

lemma encode_sites_Inr:
  assumes "encode_sites C seq rs row g = Inr (row', g')"
  shows "g' = g @ filter (\<lambda>r. take 3 (drop (3 * r) seq) = ''---'') rs
    \<and> length row' = length row
    \<and> (\<forall>r \<in> set rs. take 3 (drop (3 * r) seq) \<noteq> ''---'' \<longrightarrow>
          CODON_TO_INDEX C (take 3 (drop (3 * r) seq)) = Some (row' ! r))
    \<and> (\<forall>r. r \<notin> set rs \<or> take 3 (drop (3 * r) seq) = ''---'' \<longrightarrow> row' ! r = row ! r)"
  using assms
proof (induction rs arbitrary: row g)
  case Nil
  then show ?case by simp
next
  case (Cons r rs)
  let ?w = "\<lambda>r. take 3 (drop (3 * r) seq)"
  show ?case
  proof (cases "?w r = ''---''")
    case True
    then have "encode_sites C seq rs row (g @ [r]) = Inr (row', g')"
      using Cons.prems by simp
    from Cons.IH [OF this] show ?thesis using True by auto
  next
    case False
    then obtain i where i: "CODON_TO_INDEX C (?w r) = Some i" and r: "r < length row"
      and rec: "encode_sites C seq rs (row[r := i]) g = Inr (row', g')"
      using Cons.prems by (auto simp: Let_def split: option.splits if_splits)
    note ih = Cons.IH [OF rec]
    have here: "CODON_TO_INDEX C (?w r) = Some (row' ! r)"
    proof (cases "r \<in> set rs")
      case True
      then show ?thesis using ih False by blast
    next
      case False
      then have "row' ! r = row[r := i] ! r" using ih by blast
      then show ?thesis using i r by simp
    qed
    have keep: "row' ! q = row ! q" if "q \<notin> set (r # rs) \<or> ?w q = ''---''" for q
    proof -
      from that False have "q \<noteq> r" by auto
      moreover from that have "q \<notin> set rs \<or> ?w q = ''---''" by auto
      then have "row' ! q = row[r := i] ! q" using ih by blast
      ultimately show ?thesis by simp
    qed
    show ?thesis using ih here keep False by auto
  qed
qed

text \<open>The state after the assignment to \<open>t[n]\<close> that opens the body of the loop.\<close>

definition with_t :: "nat \<Rightarrow> path \<Rightarrow> clade \<Rightarrow> TreeLikelihood \<Rightarrow> TreeLikelihood" where
  "with_t n p node s = (if p \<noteq> [] then s\<lparr>t := (t s)[n := branch_length node]\<rparr> else s)"

lemma with_t_fields [simp]:
  "tips (with_t n p node s) = tips s" "gaps (with_t n p node s) = gaps s"
  "ntips (with_t n p node s) = ntips s" "nsites (with_t n p node s) = nsites s"
  "nnodes (with_t n p node s) = nnodes s" "ninternal (with_t n p node s) = ninternal s"
  "rdescend (with_t n p node s) = rdescend s" "ldescend (with_t n p node s) = ldescend s"
  "name_to_nodeindex (with_t n p node s) = name_to_nodeindex s"
  "length (t (with_t n p node s)) = length (t s)"
  by (simp_all add: with_t_def)

lemma index_node_Inr:
  assumes "index_node C ad (n, p, node) s = Inr s'"
  obtains s2 where
    "if is_terminal node then index_tip C ad n node (with_t n p node s) = Inr s2
     else index_internal n p node (with_t n p node s) = Inr s2"
    "s' = s2\<lparr>name_to_nodeindex := (name_to_nodeindex s2)(p \<mapsto> n)\<rparr>"
    "p \<noteq> [] \<longrightarrow> n < nnodes s - 1 \<and> n < length (t s)"
proof (cases "p = []")
  case True
  then show ?thesis using assms that
    by (auto simp: with_t_def split: sum.splits if_splits)
next
  case False
  then show ?thesis using assms that
    by (auto simp: with_t_def split: sum.splits if_splits)
qed

lemma index_tip_Inr:
  assumes "index_tip C ad n node s1 = Inr s2"
  obtains nm seq row g where "n < ntips s1" "n < length (tips s1)"
    "name node = Some nm" "ad nm = Some seq"
    "encode_sites C seq [0..<nsites s1] (tips s1 ! n) [] = Inr (row, g)"
    "s2 = s1\<lparr>tips := (tips s1)[n := row], gaps := gaps s1 @ [g]\<rparr>"
  using assms that unfolding index_tip_def
  by (auto split: if_splits option.splits sum.splits)

lemma index_internal_Inr:
  assumes "index_internal n p node s1 = Inr s2"
  obtains nr nl where "ntips s1 \<le> n" "length (clades node) = 2"
    "name_to_nodeindex s1 (p @ [0]) = Some nr" "name_to_nodeindex s1 (p @ [1]) = Some nl"
    "n - ntips s1 < length (rdescend s1)" "n - ntips s1 < length (ldescend s1)"
    "s2 = s1\<lparr>rdescend := (rdescend s1)[n - ntips s1 := int nr],
              ldescend := (ldescend s1)[n - ntips s1 := int nl]\<rparr>"
  using assms that unfolding index_internal_def
  by (auto simp: Let_def split: if_splits option.splits)

text \<open>
  What the encoding of one tip sequence is: the gap sites in ascending order, codon index
  0 kept at a gap site, the index of the codon stored at every other site.
\<close>

definition tip_encoded :: "constants \<Rightarrow> nat \<Rightarrow> string \<Rightarrow> nat list \<Rightarrow> nat list \<Rightarrow> bool" where
  "tip_encoded C ns seq row g =
     (g = filter (\<lambda>r. take 3 (drop (3 * r) seq) = ''---'') [0..<ns] \<and> length row = ns \<and>
      (\<forall>r < ns. if take 3 (drop (3 * r) seq) = ''---'' then row ! r = 0
                 else CODON_TO_INDEX C (take 3 (drop (3 * r) seq)) = Some (row ! r)))"

definition tip_inv ::
  "constants \<Rightarrow> (string \<Rightarrow> string option) \<Rightarrow> (path \<times> clade) list \<Rightarrow> nat \<Rightarrow> nat \<Rightarrow> nat
     \<Rightarrow> TreeLikelihood \<Rightarrow> bool" where
  "tip_inv C ad xs nt ns k s =
     (ntips s = nt \<and> nsites s = ns \<and> length (tips s) = nt \<and> length (gaps s) = min k nt \<and>
      (\<forall>n. min k nt \<le> n \<and> n < nt \<longrightarrow> tips s ! n = replicate ns 0) \<and>
      (\<forall>n < min k nt. \<exists>nm seq. name (snd (xs ! n)) = Some nm \<and> ad nm = Some seq \<and>
           tip_encoded C ns seq (tips s ! n) (gaps s ! n)))"

lemma tip_inv_step:
  assumes inv: "tip_inv C ad xs nt ns k s"
    and tm: "is_terminal (snd (xs ! k)) \<longleftrightarrow> k < nt"
    and step: "index_node C ad (k, xs ! k) s = Inr s'"
  shows "tip_inv C ad xs nt ns (Suc k) s'"
proof -
  obtain p node where x: "xs ! k = (p, node)" by (cases "xs ! k")
  from step obtain s2 where
    b: "if is_terminal node then index_tip C ad k node (with_t k p node s) = Inr s2
     else index_internal k p node (with_t k p node s) = Inr s2"
    and s': "s' = s2\<lparr>name_to_nodeindex := (name_to_nodeindex s2)(p \<mapsto> k)\<rparr>"
    unfolding x by (rule index_node_Inr)
  let ?s1 = "with_t k p node s"
  from inv have f: "ntips s = nt" "nsites s = ns" "length (tips s) = nt" "length (gaps s) = min k nt"
    and fresh: "\<And>n. min k nt \<le> n \<Longrightarrow> n < nt \<Longrightarrow> tips s ! n = replicate ns 0"
    and finished: "\<And>n. n < min k nt \<Longrightarrow> \<exists>nm seq. name (snd (xs ! n)) = Some nm \<and> ad nm = Some seq \<and>
           tip_encoded C ns seq (tips s ! n) (gaps s ! n)"
    unfolding tip_inv_def by blast+
  show ?thesis
  proof (cases "k < nt")
    case True
    then have "is_terminal node" using tm x by simp
    with b have "index_tip C ad k node ?s1 = Inr s2" by simp
    then obtain nm seq row g where nm: "name node = Some nm" "ad nm = Some seq"
      and enc: "encode_sites C seq [0..<nsites ?s1] (tips ?s1 ! k) [] = Inr (row, g)"
      and s2: "s2 = ?s1\<lparr>tips := (tips ?s1)[k := row], gaps := gaps ?s1 @ [g]\<rparr>"
      by (rule index_tip_Inr)
    have tk: "tips s ! k = replicate ns 0" using fresh [of k] True by simp
    from encode_sites_Inr [OF enc]
    have g: "g = filter (\<lambda>r. take 3 (drop (3 * r) seq) = ''---'') [0..<ns]"
      and lr: "length row = ns"
      and cod: "\<And>r. r < ns \<Longrightarrow> take 3 (drop (3 * r) seq) \<noteq> ''---'' \<Longrightarrow>
          CODON_TO_INDEX C (take 3 (drop (3 * r) seq)) = Some (row ! r)"
      and gap: "\<And>r. take 3 (drop (3 * r) seq) = ''---'' \<Longrightarrow> row ! r = replicate ns 0 ! r"
      using f(2) tk by simp_all
    have enc_k: "tip_encoded C ns seq row g"
      unfolding tip_encoded_def using g lr cod gap by simp
    have tips': "tips s' = (tips s)[k := row]" and gaps': "gaps s' = gaps s @ [g]"
      and nt': "ntips s' = nt" "nsites s' = ns"
      using s' s2 f by simp_all
    have lg: "length (gaps s) = k" using f(4) True by simp
    have "\<exists>nm seq. name (snd (xs ! n)) = Some nm \<and> ad nm = Some seq \<and>
           tip_encoded C ns seq (tips s' ! n) (gaps s' ! n)" if "n < min (Suc k) nt" for n
    proof (cases "n = k")
      case True
      then show ?thesis
        using nm enc_k x tips' gaps' lg f(3) \<open>k < nt\<close> by (simp add: nth_append)
    next
      case False
      with that have "n < min k nt" by simp
      from finished [OF this] show ?thesis
        using False \<open>n < min k nt\<close> tips' gaps' lg by (simp add: nth_append)
    qed
    moreover have "tips s' ! n = replicate ns 0" if "min (Suc k) nt \<le> n" "n < nt" for n
      using that fresh [of n] tips' by simp
    ultimately show ?thesis
      unfolding tip_inv_def using nt' tips' gaps' f True by simp
  next
    case False
    then have "\<not> is_terminal node" using tm x by simp
    with b have "index_internal k p node ?s1 = Inr s2" by simp
    then obtain nr nl where
      "s2 = ?s1\<lparr>rdescend := (rdescend ?s1)[k - ntips ?s1 := int nr],
              ldescend := (ldescend ?s1)[k - ntips ?s1 := int nl]\<rparr>"
      by (rule index_internal_Inr)
    then have same: "tips s' = tips s" "gaps s' = gaps s" "ntips s' = nt" "nsites s' = ns"
      using s' f by simp_all
    have "min (Suc k) nt = min k nt" using False by simp
    then show ?thesis
      using inv unfolding tip_inv_def same by simp
  qed
qed

lemma init_tip_inv:
  assumes "init C tr al mdl = Inr s"
  shows "tip_inv C (map_of (rev al)) (nodes_in_index_order tr) (count_terminals tr) (m_nsites mdl)
           (length (nodes_in_index_order tr)) s"
proof -
  let ?xs = "nodes_in_index_order tr"
  let ?ad = "map_of (rev al)"
  let ?I = "tip_inv C ?ad ?xs (count_terminals tr) (m_nsites mdl)"
  from assms obtain dl s1 i d where
    loop: "for_loop (index_node C ?ad) (enumerate 0 ?xs) (allocate C tr al mdl dl) = Inr s1"
    and up: "updateInternals (with_index_map s1 d) = Inr s"
    by (rule init_Inr)
  have "?I (0 + length ?xs) s1"
  proof (rule for_loop_enumerate [OF loop])
    show "?I 0 (allocate C tr al mdl dl)"
      by (simp add: tip_inv_def allocate_def Let_def)
  next
    fix k s0 s0'
    assume "k < 0 + length ?xs" "?I k s0" "index_node C ?ad (k, ?xs ! (k - 0)) s0 = Inr s0'"
    then show "?I (Suc k) s0'"
      using nodes_terminal [of k tr] by (intro tip_inv_step [of C ?ad ?xs _ _ k s0]) simp_all
  qed
  moreover have "update_frame (with_index_map s1 d) s"
    using updateInternals_frame [of "with_index_map s1 d"] up by simp
  then have "tips s = tips s1" "gaps s = gaps s1" "ntips s = ntips s1" "nsites s = nsites s1"
    using update_frame_fields [of "with_index_map s1 d" s] by (simp_all add: with_index_map_def)
  ultimately show ?thesis
    by (simp add: tip_inv_def)
qed

lemma init_tips:
  assumes i: "init C tr al mdl = Inr s" and n: "n < ntips s"
  shows "\<exists>p node nm seq. nodes_in_index_order tr ! n = (p, node) \<and> is_terminal node \<and>
      name node = Some nm \<and> map_of (rev al) nm = Some seq \<and> length seq = 3 * nsites s \<and>
      (\<forall>r < nsites s.
         (take 3 (drop (3 * r) seq) = ''---'' \<longrightarrow> r \<in> set (gaps s ! n) \<and> tips s ! n ! r = 0) \<and>
         (take 3 (drop (3 * r) seq) \<noteq> ''---'' \<longrightarrow> r \<notin> set (gaps s ! n) \<and>
            CODON_TO_INDEX C (take 3 (drop (3 * r) seq)) = Some (tips s ! n ! r)))"
proof -
  let ?xs = "nodes_in_index_order tr"
  let ?nt = "count_terminals tr"
  let ?ns = "m_nsites mdl"
  from init_tip_inv [OF i]
  have nt: "ntips s = ?nt" and ns: "nsites s = ?ns"
    and enc: "\<And>n. n < min (length ?xs) ?nt \<Longrightarrow>
      \<exists>nm seq. name (snd (?xs ! n)) = Some nm \<and> map_of (rev al) nm = Some seq \<and>
        tip_encoded C ?ns seq (tips s ! n) (gaps s ! n)"
    unfolding tip_inv_def by blast+
  have len: "length ?xs = ?nt + length (get_nonterminals tr)" by (rule nodes_length)
  then have nlt: "n < min (length ?xs) ?nt" using n nt by simp
  from enc [OF nlt] obtain nm seq where nm: "name (snd (?xs ! n)) = Some nm"
    and seq: "map_of (rev al) nm = Some seq"
    and te: "tip_encoded C ?ns seq (tips s ! n) (gaps s ! n)" by blast
  obtain p node where x: "?xs ! n = (p, node)" by (cases "?xs ! n")
  have trm: "is_terminal node"
    using nodes_terminal [of n tr] nlt x by simp
  from i have "list_all (\<lambda>(head, seq). length seq = 3 * ?ns) al"
    by (rule init_Inr)
  moreover from seq have "(nm, seq) \<in> set al"
    using map_of_SomeD by fastforce
  ultimately have ls: "length seq = 3 * ?ns"
    by (auto simp: list_all_iff)
  from te have g: "gaps s ! n = filter (\<lambda>r. take 3 (drop (3 * r) seq) = ''---'') [0..<?ns]"
    and row: "\<And>r. r < ?ns \<Longrightarrow> (if take 3 (drop (3 * r) seq) = ''---'' then tips s ! n ! r = 0
                 else CODON_TO_INDEX C (take 3 (drop (3 * r) seq)) = Some (tips s ! n ! r))"
    unfolding tip_encoded_def by blast+
  have "(take 3 (drop (3 * r) seq) = ''---'' \<longrightarrow> r \<in> set (gaps s ! n) \<and> tips s ! n ! r = 0) \<and>
         (take 3 (drop (3 * r) seq) \<noteq> ''---'' \<longrightarrow> r \<notin> set (gaps s ! n) \<and>
            CODON_TO_INDEX C (take 3 (drop (3 * r) seq)) = Some (tips s ! n ! r))"
    if "r < nsites s" for r
    using row [of r] that ns unfolding g by (simp split: if_splits)
  then show ?thesis
    using x trm nm seq ls ns by auto
qed

text \<open>
  C8. In an engine that the construction returns, every tip \<open>n\<close> is a terminal node of
  the tree whose sequence, looked up by its name in the dict of the alignment, has three
  characters per site, and at every site \<open>r\<close>: if the codon \<open>seq[3r : 3r + 3]\<close> is
  \<open>---\<close>, then \<open>r\<close> is in \<open>gaps[n]\<close> and \<open>tips[n][r]\<close> is still 0; otherwise the codon is
  in \<open>CODON_TO_INDEX\<close>, its index is \<open>tips[n][r]\<close> and \<open>r\<close> is not in \<open>gaps[n]\<close>. A codon
  of a tip sequence that is neither makes the construction raise.
\<close>

theorem tip_encoding:
  "(\<forall>s. init C tr al mdl = Inr s \<longrightarrow>
      length (tips s) = ntips s \<and> length (gaps s) = ntips s \<and>
      (\<forall>n < ntips s. \<exists>p node nm seq.
         nodes_in_index_order tr ! n = (p, node) \<and> is_terminal node \<and>
         name node = Some nm \<and> map_of (rev al) nm = Some seq \<and> length seq = 3 * nsites s \<and>
         (\<forall>r < nsites s.
            (take 3 (drop (3 * r) seq) = ''---'' \<longrightarrow>
               r \<in> set (gaps s ! n) \<and> tips s ! n ! r = 0) \<and>
            (take 3 (drop (3 * r) seq) \<noteq> ''---'' \<longrightarrow>
               r \<notin> set (gaps s ! n) \<and>
               CODON_TO_INDEX C (take 3 (drop (3 * r) seq)) = Some (tips s ! n ! r)))))
   \<and> ((\<exists>n < count_terminals tr. \<exists>nm seq r.
          name (snd (nodes_in_index_order tr ! n)) = Some nm \<and> map_of (rev al) nm = Some seq \<and>
          r < m_nsites mdl \<and> take 3 (drop (3 * r) seq) \<noteq> ''---'' \<and>
          CODON_TO_INDEX C (take 3 (drop (3 * r) seq)) = None)
        \<longrightarrow> (\<exists>e. init C tr al mdl = Inl e))"
proof -
  have p1: "length (tips s) = ntips s \<and> length (gaps s) = ntips s \<and>
      (\<forall>n < ntips s. \<exists>p node nm seq.
         nodes_in_index_order tr ! n = (p, node) \<and> is_terminal node \<and>
         name node = Some nm \<and> map_of (rev al) nm = Some seq \<and> length seq = 3 * nsites s \<and>
         (\<forall>r < nsites s.
            (take 3 (drop (3 * r) seq) = ''---'' \<longrightarrow>
               r \<in> set (gaps s ! n) \<and> tips s ! n ! r = 0) \<and>
            (take 3 (drop (3 * r) seq) \<noteq> ''---'' \<longrightarrow>
               r \<notin> set (gaps s ! n) \<and>
               CODON_TO_INDEX C (take 3 (drop (3 * r) seq)) = Some (tips s ! n ! r))))"
    if i: "init C tr al mdl = Inr s" for s
  proof -
    from init_tip_inv [OF i]
    have a: "ntips s = count_terminals tr" "length (tips s) = count_terminals tr"
      "length (gaps s) = min (length (nodes_in_index_order tr)) (count_terminals tr)"
      unfolding tip_inv_def by blast+
    have "length (tips s) = ntips s" using a by simp
    moreover have "length (gaps s) = ntips s" using a nodes_length [of tr] by simp
    ultimately show ?thesis
      using init_tips [OF i] by blast
  qed
  have p2: "\<exists>e. init C tr al mdl = Inl e"
    if bad: "\<exists>n < count_terminals tr. \<exists>nm seq r.
          name (snd (nodes_in_index_order tr ! n)) = Some nm \<and> map_of (rev al) nm = Some seq \<and>
          r < m_nsites mdl \<and> take 3 (drop (3 * r) seq) \<noteq> ''---'' \<and>
          CODON_TO_INDEX C (take 3 (drop (3 * r) seq)) = None"
  proof -
    from bad obtain n nm seq r where n: "n < count_terminals tr"
      and nm: "name (snd (nodes_in_index_order tr ! n)) = Some nm"
      and seq: "map_of (rev al) nm = Some seq" and r: "r < m_nsites mdl"
      and w: "take 3 (drop (3 * r) seq) \<noteq> ''---''"
        "CODON_TO_INDEX C (take 3 (drop (3 * r) seq)) = None"
      by blast
    show ?thesis
    proof (cases "init C tr al mdl")
      case (Inl e)
      then show ?thesis by blast
    next
      case (Inr s)
      from init_tip_inv [OF Inr] have f: "ntips s = count_terminals tr" "nsites s = m_nsites mdl"
        unfolding tip_inv_def by blast+
      from init_tips [OF Inr, of n] n f obtain p node nm' seq' where
        x: "nodes_in_index_order tr ! n = (p, node)" "name node = Some nm'"
          "map_of (rev al) nm' = Some seq'"
        and ok: "\<forall>r < nsites s. take 3 (drop (3 * r) seq') \<noteq> ''---'' \<longrightarrow>
              CODON_TO_INDEX C (take 3 (drop (3 * r) seq')) \<noteq> None"
        by auto
      from x nm seq have "seq' = seq" by simp
      with ok r w f show ?thesis by auto
    qed
  qed
  from p1 p2 show ?thesis by blast
qed

lemma ex_bad_init:
  "init ex_constants ex_tree [(''A'', ''ATG''), (''B'', ''ATX''), (''C'', ''CTT'')] ex_model
     = Inl ValueError"
  by (simp add: ex_defs eval_defs eval_nat_numeral)

theorem tip_encoding_witness:
  "init ex_constants ex_tree ex_alignment ex_model = Inr ex_engine
   \<and> 0 \<in> set (gaps ex_engine ! 1) \<and> tips ex_engine ! 1 ! 0 = 0
   \<and> CODON_TO_INDEX ex_constants ''CTT'' = Some (tips ex_engine ! 2 ! 0)
   \<and> init ex_constants ex_tree [(''A'', ''ATG''), (''B'', ''ATX''), (''C'', ''CTT'')] ex_model
       = Inl ValueError"
proof -
  note th = tip_encoding [of ex_constants ex_tree ex_alignment ex_model]
  have nt: "ntips ex_engine = 3" "nsites ex_engine = 1" by (simp_all add: ex_engine_def)
  have xs: "nodes_in_index_order ex_tree =
    [([0, 0], Clade (Some ''A'') (1 / 10) []), ([0, 1], Clade (Some ''B'') (1 / 5) []),
     ([1], Clade (Some ''C'') (3 / 10) []),
     ([0], Clade None (1 / 20) [Clade (Some ''A'') (1 / 10) [], Clade (Some ''B'') (1 / 5) []]),
     ([], ex_tree)]"
    by (simp add: nodes_in_index_order_def ex_tree_def is_terminal_def)
  from th ex_init have "\<exists>p node nm seq.
         nodes_in_index_order ex_tree ! 1 = (p, node) \<and> is_terminal node \<and>
         name node = Some nm \<and> map_of (rev ex_alignment) nm = Some seq \<and>
         length seq = 3 * nsites ex_engine \<and>
         (\<forall>r < nsites ex_engine.
            (take 3 (drop (3 * r) seq) = ''---'' \<longrightarrow>
               r \<in> set (gaps ex_engine ! 1) \<and> tips ex_engine ! 1 ! r = 0) \<and>
            (take 3 (drop (3 * r) seq) \<noteq> ''---'' \<longrightarrow>
               r \<notin> set (gaps ex_engine ! 1) \<and>
               CODON_TO_INDEX ex_constants (take 3 (drop (3 * r) seq)) = Some (tips ex_engine ! 1 ! r)))"
    using nt by simp
  then have b: "0 \<in> set (gaps ex_engine ! 1) \<and> tips ex_engine ! 1 ! 0 = 0"
    unfolding xs nt by (auto simp: ex_alignment_def)
  from th ex_init have "\<exists>p node nm seq.
         nodes_in_index_order ex_tree ! 2 = (p, node) \<and> is_terminal node \<and>
         name node = Some nm \<and> map_of (rev ex_alignment) nm = Some seq \<and>
         length seq = 3 * nsites ex_engine \<and>
         (\<forall>r < nsites ex_engine.
            (take 3 (drop (3 * r) seq) = ''---'' \<longrightarrow>
               r \<in> set (gaps ex_engine ! 2) \<and> tips ex_engine ! 2 ! r = 0) \<and>
            (take 3 (drop (3 * r) seq) \<noteq> ''---'' \<longrightarrow>
               r \<notin> set (gaps ex_engine ! 2) \<and>
               CODON_TO_INDEX ex_constants (take 3 (drop (3 * r) seq)) = Some (tips ex_engine ! 2 ! r)))"
    using nt by simp
  then have c: "CODON_TO_INDEX ex_constants ''CTT'' = Some (tips ex_engine ! 2 ! 0)"
    unfolding xs nt by (auto simp: ex_alignment_def)
  from b c ex_init ex_bad_init show ?thesis by simp
qed

section \<open>The node indexer\<close>

text \<open>
  The state of the index tables after the loop has visited the first \<open>k\<close> nodes of the
  list \<open>xs\<close> of the nodes.
\<close>

definition index_inv :: "(path \<times> clade) list \<Rightarrow> nat \<Rightarrow> nat \<Rightarrow> nat \<Rightarrow> TreeLikelihood \<Rightarrow> bool" where
  "index_inv xs nt nint k s =
     (ntips s = nt \<and> ninternal s = nint \<and> nnodes s = nt + nint \<and>
      length (rdescend s) = nint \<and> length (ldescend s) = nint \<and> length (t s) = nt + nint - 1 \<and>
      (\<forall>j < k. name_to_nodeindex s (fst (xs ! j)) = Some j) \<and>
      (\<forall>q n. name_to_nodeindex s q = Some n \<longrightarrow> n < k \<and> fst (xs ! n) = q) \<and>
      (\<forall>j. nt \<le> j \<and> j < k \<longrightarrow>
         (\<exists>nr nl. name_to_nodeindex s (fst (xs ! j) @ [0]) = Some nr \<and>
                  rdescend s ! (j - nt) = int nr \<and> nr < j \<and>
                  name_to_nodeindex s (fst (xs ! j) @ [1]) = Some nl \<and>
                  ldescend s ! (j - nt) = int nl \<and> nl < j)) \<and>
      (\<forall>j < k. fst (xs ! j) \<noteq> [] \<longrightarrow> t s ! j = branch_length (snd (xs ! j))))"

lemma index_inv_step:
  assumes inv: "index_inv xs nt nint k s"
    and k: "k < length xs" and dist: "distinct (map fst xs)"
    and tm: "is_terminal (snd (xs ! k)) \<longleftrightarrow> k < nt"
    and step: "index_node C ad (k, xs ! k) s = Inr s'"
  shows "index_inv xs nt nint (Suc k) s'"
proof -
  obtain p node where x: "xs ! k = (p, node)" by (cases "xs ! k")
  let ?s1 = "with_t k p node s"
  from step obtain s2 where
    b: "if is_terminal node then index_tip C ad k node ?s1 = Inr s2
     else index_internal k p node ?s1 = Inr s2"
    and s': "s' = s2\<lparr>name_to_nodeindex := (name_to_nodeindex s2)(p \<mapsto> k)\<rparr>"
    and tlen: "p \<noteq> [] \<longrightarrow> k < nnodes s - 1 \<and> k < length (t s)"
    unfolding x by (rule index_node_Inr)
  from inv have f: "ntips s = nt" "ninternal s = nint" "nnodes s = nt + nint"
    "length (rdescend s) = nint" "length (ldescend s) = nint" "length (t s) = nt + nint - 1"
    and nm: "\<And>j. j < k \<Longrightarrow> name_to_nodeindex s (fst (xs ! j)) = Some j"
    and val: "\<And>q n. name_to_nodeindex s q = Some n \<Longrightarrow> n < k \<and> fst (xs ! n) = q"
    and ch: "\<And>j. nt \<le> j \<Longrightarrow> j < k \<Longrightarrow>
         \<exists>nr nl. name_to_nodeindex s (fst (xs ! j) @ [0]) = Some nr \<and>
                  rdescend s ! (j - nt) = int nr \<and> nr < j \<and>
                  name_to_nodeindex s (fst (xs ! j) @ [1]) = Some nl \<and>
                  ldescend s ! (j - nt) = int nl \<and> nl < j"
    and bl: "\<And>j. j < k \<Longrightarrow> fst (xs ! j) \<noteq> [] \<Longrightarrow> t s ! j = branch_length (snd (xs ! j))"
    unfolding index_inv_def by blast+
  have neq: "fst (xs ! j) \<noteq> p" if "j < k" for j
  proof
    assume "fst (xs ! j) = p"
    then have e: "map fst xs ! j = map fst xs ! k" using that k x by simp
    have "(map fst xs ! j = map fst xs ! k) = (j = k)"
      by (rule nth_eq_iff_index_eq [OF dist]) (use that k in simp_all)
    with e that show False by simp
  qed
  have fresh: "name_to_nodeindex s p = None"
  proof (rule ccontr)
    assume "name_to_nodeindex s p \<noteq> None"
    then obtain n where "name_to_nodeindex s p = Some n" by blast
    from val [OF this] neq [of n] show False by simp
  qed
  have t1: "t ?s1 ! j = t s ! j" if "j < k" for j
    using that by (simp add: with_t_def)
  have tk: "t ?s1 ! k = branch_length node" if "p \<noteq> []"
    using that tlen by (simp add: with_t_def)
  text \<open>What the branch of the node leaves of the tables.\<close>
  have tabs: "ntips s2 = nt \<and> ninternal s2 = nint \<and> nnodes s2 = nt + nint \<and>
      name_to_nodeindex s2 = name_to_nodeindex s \<and> t s2 = t ?s1 \<and>
      length (rdescend s2) = nint \<and> length (ldescend s2) = nint \<and>
      (\<forall>j. j \<noteq> k \<longrightarrow> rdescend s2 ! (j - nt) = rdescend s ! (j - nt) \<or> j < nt) \<and>
      (\<forall>j. j \<noteq> k \<longrightarrow> ldescend s2 ! (j - nt) = ldescend s ! (j - nt) \<or> j < nt) \<and>
      (nt \<le> k \<longrightarrow> (\<exists>nr nl. name_to_nodeindex s (p @ [0]) = Some nr \<and>
          rdescend s2 ! (k - nt) = int nr \<and> name_to_nodeindex s (p @ [1]) = Some nl \<and>
          ldescend s2 ! (k - nt) = int nl))"
  proof (cases "is_terminal node")
    case True
    with b have "index_tip C ad k node ?s1 = Inr s2" by simp
    then obtain row g where "s2 = ?s1\<lparr>tips := (tips ?s1)[k := row], gaps := gaps ?s1 @ [g]\<rparr>"
      by (rule index_tip_Inr)
    then show ?thesis using f True tm x by simp
  next
    case False
    with b have "index_internal k p node ?s1 = Inr s2" by simp
    then obtain nr nl where ge: "ntips ?s1 \<le> k"
      and look: "name_to_nodeindex ?s1 (p @ [0]) = Some nr" "name_to_nodeindex ?s1 (p @ [1]) = Some nl"
      and lens: "k - ntips ?s1 < length (rdescend ?s1)" "k - ntips ?s1 < length (ldescend ?s1)"
      and s2: "s2 = ?s1\<lparr>rdescend := (rdescend ?s1)[k - ntips ?s1 := int nr],
              ldescend := (ldescend ?s1)[k - ntips ?s1 := int nl]\<rparr>"
      by (rule index_internal_Inr)
    have other: "(rdescend s)[k - nt := v] ! (j - nt) = rdescend s ! (j - nt) \<or> j < nt"
      "(ldescend s)[k - nt := v] ! (j - nt) = ldescend s ! (j - nt) \<or> j < nt" if "j \<noteq> k" for j v
      using that ge f(1) by (auto simp: nth_list_update)
    show ?thesis
      using f s2 look lens other by simp
  qed
  then obtain s2f: "ntips s2 = nt" "ninternal s2 = nint" "nnodes s2 = nt + nint"
      "name_to_nodeindex s2 = name_to_nodeindex s" "t s2 = t ?s1"
      "length (rdescend s2) = nint" "length (ldescend s2) = nint"
    and rd: "\<And>j. j \<noteq> k \<Longrightarrow> nt \<le> j \<Longrightarrow> rdescend s2 ! (j - nt) = rdescend s ! (j - nt)"
    and ld: "\<And>j. j \<noteq> k \<Longrightarrow> nt \<le> j \<Longrightarrow> ldescend s2 ! (j - nt) = ldescend s ! (j - nt)"
    and here: "nt \<le> k \<Longrightarrow> \<exists>nr nl. name_to_nodeindex s (p @ [0]) = Some nr \<and>
          rdescend s2 ! (k - nt) = int nr \<and> name_to_nodeindex s (p @ [1]) = Some nl \<and>
          ldescend s2 ! (k - nt) = int nl"
    by (metis not_less)
  let ?nm' = "(name_to_nodeindex s)(p \<mapsto> k)"
  have s'f: "ntips s' = nt" "ninternal s' = nint" "nnodes s' = nt + nint"
    "name_to_nodeindex s' = ?nm'" "t s' = t ?s1" "rdescend s' = rdescend s2"
    "ldescend s' = ldescend s2"
    using s' s2f by simp_all
  have keep: "?nm' q = Some n" if "name_to_nodeindex s q = Some n" for q n
    using that fresh by (cases "q = p") simp_all
  have c1: "?nm' (fst (xs ! j)) = Some j" if "j < Suc k" for j
  proof (cases "j = k")
    case True
    then show ?thesis using x by simp
  next
    case False
    with that have "j < k" by simp
    then show ?thesis using nm [of j] keep by simp
  qed
  have c2: "n < Suc k \<and> fst (xs ! n) = q" if "?nm' q = Some n" for q n
  proof (cases "q = p")
    case True
    then show ?thesis using that x by simp
  next
    case False
    then show ?thesis using that val [of q n] by simp
  qed
  have c3: "\<exists>nr nl. ?nm' (fst (xs ! j) @ [0]) = Some nr \<and>
                  rdescend s2 ! (j - nt) = int nr \<and> nr < j \<and>
                  ?nm' (fst (xs ! j) @ [1]) = Some nl \<and>
                  ldescend s2 ! (j - nt) = int nl \<and> nl < j" if "nt \<le> j" "j < Suc k" for j
  proof (cases "j = k")
    case True
    from here that True obtain nr nl where h: "name_to_nodeindex s (p @ [0]) = Some nr"
      "rdescend s2 ! (k - nt) = int nr" "name_to_nodeindex s (p @ [1]) = Some nl"
      "ldescend s2 ! (k - nt) = int nl" by blast
    from val [OF h(1)] val [OF h(3)] have "nr < k" "nl < k" by simp_all
    then show ?thesis using h keep True x by auto
  next
    case False
    with that have jk: "j < k" by simp
    from ch [OF that(1) jk] obtain nr nl where
      h: "name_to_nodeindex s (fst (xs ! j) @ [0]) = Some nr" "rdescend s ! (j - nt) = int nr"
        "nr < j" "name_to_nodeindex s (fst (xs ! j) @ [1]) = Some nl"
        "ldescend s ! (j - nt) = int nl" "nl < j" by blast
    then show ?thesis using keep rd [OF False that(1)] ld [OF False that(1)] by auto
  qed
  have c4: "t ?s1 ! j = branch_length (snd (xs ! j))" if "j < Suc k" "fst (xs ! j) \<noteq> []" for j
  proof (cases "j = k")
    case True
    then show ?thesis using that tk x by simp
  next
    case False
    with that have "j < k" by simp
    then show ?thesis using t1 bl that by simp
  qed
  have lt: "length (t ?s1) = nt + nint - 1" using f by simp
  show ?thesis
    unfolding index_inv_def s'f using s2f(6,7) lt c1 c2 c3 c4 by blast
qed

lemma init_index_inv:
  assumes "init C tr al mdl = Inr s"
  shows "index_inv (nodes_in_index_order tr) (count_terminals tr) (length (get_nonterminals tr))
           (length (nodes_in_index_order tr)) s"
proof -
  let ?xs = "nodes_in_index_order tr"
  let ?ad = "map_of (rev al)"
  let ?I = "index_inv ?xs (count_terminals tr) (length (get_nonterminals tr))"
  from assms obtain dl s1 i d where
    loop: "for_loop (index_node C ?ad) (enumerate 0 ?xs) (allocate C tr al mdl dl) = Inr s1"
    and up: "updateInternals (with_index_map s1 d) = Inr s"
    by (rule init_Inr)
  have "?I (0 + length ?xs) s1"
  proof (rule for_loop_enumerate [OF loop])
    show "?I 0 (allocate C tr al mdl dl)"
      by (simp add: index_inv_def allocate_def Let_def)
  next
    fix k s0 s0'
    assume "k < 0 + length ?xs" "?I k s0" "index_node C ?ad (k, ?xs ! (k - 0)) s0 = Inr s0'"
    then show "?I (Suc k) s0'"
      using nodes_terminal [of k tr] nodes_distinct [of tr]
      by (intro index_inv_step [of ?xs _ _ k s0 C ?ad]) simp_all
  qed
  moreover have "update_frame (with_index_map s1 d) s"
    using updateInternals_frame [of "with_index_map s1 d"] up by simp
  then have "ntips s = ntips s1" "ninternal s = ninternal s1" "nnodes s = nnodes s1"
    "rdescend s = rdescend s1" "ldescend s = ldescend s1" "t s = t s1"
    "name_to_nodeindex s = name_to_nodeindex s1"
    using update_frame_fields [of "with_index_map s1 d" s] by (simp_all add: with_index_map_def)
  ultimately show ?thesis
    by (simp add: index_inv_def)
qed

text \<open>
  C4. In an engine that the construction returns: the nodes are numbered in the order of
  the list of the tips followed by the internal nodes, the indices below \<open>ntips\<close> are those
  of the terminal nodes and the indices from \<open>ntips\<close> to \<open>nnodes - 1\<close> those of the internal
  nodes, the root has the index \<open>nnodes - 1\<close>, and for every internal node \<open>m\<close> the entries
  \<open>rdescend[m - ntips]\<close> and \<open>ldescend[m - ntips]\<close> are the indices of its first and second
  child and are below \<open>m\<close>: an ascending pass over the internal nodes visits the children
  before the parent.
\<close>

theorem node_indexing:
  assumes "init C tr al mdl = Inr s"
  shows "ntips s = count_terminals tr \<and> ninternal s = length (get_nonterminals tr)
    \<and> nnodes s = ntips s + ninternal s \<and> length (nodes_in_index_order tr) = nnodes s
    \<and> (\<forall>n < nnodes s. name_to_nodeindex s (fst (nodes_in_index_order tr ! n)) = Some n \<and>
          (is_terminal (snd (nodes_in_index_order tr ! n)) \<longleftrightarrow> n < ntips s))
    \<and> (\<forall>q n. name_to_nodeindex s q = Some n \<longrightarrow>
          n < nnodes s \<and> fst (nodes_in_index_order tr ! n) = q)
    \<and> name_to_nodeindex s [] = Some (nnodes s - 1)
    \<and> (\<forall>m. ntips s \<le> m \<and> m < nnodes s \<longrightarrow>
          0 \<le> rdescend s ! (m - ntips s) \<and> rdescend s ! (m - ntips s) < int m \<and>
          0 \<le> ldescend s ! (m - ntips s) \<and> ldescend s ! (m - ntips s) < int m \<and>
          name_to_nodeindex s (fst (nodes_in_index_order tr ! m) @ [0])
            = Some (nat (rdescend s ! (m - ntips s))) \<and>
          name_to_nodeindex s (fst (nodes_in_index_order tr ! m) @ [1])
            = Some (nat (ldescend s ! (m - ntips s))))"
proof -
  let ?xs = "nodes_in_index_order tr"
  let ?nt = "count_terminals tr"
  let ?ni = "length (get_nonterminals tr)"
  from init_index_inv [OF assms]
  have f: "ntips s = ?nt" "ninternal s = ?ni" "nnodes s = ?nt + ?ni"
    and nm: "\<And>j. j < length ?xs \<Longrightarrow> name_to_nodeindex s (fst (?xs ! j)) = Some j"
    and val: "\<And>q n. name_to_nodeindex s q = Some n \<Longrightarrow> n < length ?xs \<and> fst (?xs ! n) = q"
    and ch: "\<And>j. ?nt \<le> j \<Longrightarrow> j < length ?xs \<Longrightarrow>
         \<exists>nr nl. name_to_nodeindex s (fst (?xs ! j) @ [0]) = Some nr \<and>
                  rdescend s ! (j - ?nt) = int nr \<and> nr < j \<and>
                  name_to_nodeindex s (fst (?xs ! j) @ [1]) = Some nl \<and>
                  ldescend s ! (j - ?nt) = int nl \<and> nl < j"
    unfolding index_inv_def by blast+
  have len: "length ?xs = nnodes s" using nodes_length [of tr] f by simp
  have a: "name_to_nodeindex s (fst (?xs ! n)) = Some n \<and>
          (is_terminal (snd (?xs ! n)) \<longleftrightarrow> n < ntips s)" if "n < nnodes s" for n
    using that nm [of n] nodes_terminal [of n tr] len f by simp
  have b: "n < nnodes s \<and> fst (?xs ! n) = q" if "name_to_nodeindex s q = Some n" for q n
    using val [OF that] len by simp
  have ne: "?xs \<noteq> []" and la: "last ?xs = ([], tr)"
    using nodes_last [of tr] by blast+
  have "?xs ! (length ?xs - 1) = ([], tr)"
    using last_conv_nth [OF ne] la by simp
  moreover have "length ?xs - 1 < length ?xs"
    using ne by simp
  ultimately have c: "name_to_nodeindex s [] = Some (nnodes s - 1)"
    using nm [of "length ?xs - 1"] len by simp
  have d: "0 \<le> rdescend s ! (m - ntips s) \<and> rdescend s ! (m - ntips s) < int m \<and>
          0 \<le> ldescend s ! (m - ntips s) \<and> ldescend s ! (m - ntips s) < int m \<and>
          name_to_nodeindex s (fst (?xs ! m) @ [0]) = Some (nat (rdescend s ! (m - ntips s))) \<and>
          name_to_nodeindex s (fst (?xs ! m) @ [1]) = Some (nat (ldescend s ! (m - ntips s)))"
    if "ntips s \<le> m" "m < nnodes s" for m
  proof -
    from ch [of m] that f len obtain nr nl where
      "name_to_nodeindex s (fst (?xs ! m) @ [0]) = Some nr" "rdescend s ! (m - ?nt) = int nr"
      "nr < m" "name_to_nodeindex s (fst (?xs ! m) @ [1]) = Some nl"
      "ldescend s ! (m - ?nt) = int nl" "nl < m" by auto
    then show ?thesis using f by simp
  qed
  have A: "\<forall>n < nnodes s. name_to_nodeindex s (fst (?xs ! n)) = Some n \<and>
          (is_terminal (snd (?xs ! n)) \<longleftrightarrow> n < ntips s)"
    using a by blast
  have B: "\<forall>q n. name_to_nodeindex s q = Some n \<longrightarrow> n < nnodes s \<and> fst (?xs ! n) = q"
    using b by blast
  have D: "\<forall>m. ntips s \<le> m \<and> m < nnodes s \<longrightarrow>
          0 \<le> rdescend s ! (m - ntips s) \<and> rdescend s ! (m - ntips s) < int m \<and>
          0 \<le> ldescend s ! (m - ntips s) \<and> ldescend s ! (m - ntips s) < int m \<and>
          name_to_nodeindex s (fst (?xs ! m) @ [0]) = Some (nat (rdescend s ! (m - ntips s))) \<and>
          name_to_nodeindex s (fst (?xs ! m) @ [1]) = Some (nat (ldescend s ! (m - ntips s)))"
    using d by blast
  have n3: "nnodes s = ntips s + ninternal s" using f by simp
  show ?thesis
    by (intro conjI f(1) f(2) n3 len A B c D)
qed

theorem node_indexing_witness:
  "init ex_constants ex_tree ex_alignment ex_model = Inr ex_engine
   \<and> ntips ex_engine = 3 \<and> nnodes ex_engine = 5
   \<and> name_to_nodeindex ex_engine [] = Some 4
   \<and> rdescend ex_engine ! (4 - ntips ex_engine) < 4
   \<and> ldescend ex_engine ! (4 - ntips ex_engine) < 4
   \<and> name_to_nodeindex ex_engine [0] = Some (nat (rdescend ex_engine ! 1))"
proof -
  have n: "ntips ex_engine = 3" "nnodes ex_engine = 5" by (simp_all add: ex_engine_def)
  have x: "fst (nodes_in_index_order ex_tree ! 4) = []"
    by (simp add: nodes_in_index_order_def ex_tree_def is_terminal_def)
  from node_indexing [OF ex_init]
  have r: "name_to_nodeindex ex_engine [] = Some (nnodes ex_engine - 1)"
    and c: "\<forall>m. ntips ex_engine \<le> m \<and> m < nnodes ex_engine \<longrightarrow>
          rdescend ex_engine ! (m - ntips ex_engine) < int m \<and>
          ldescend ex_engine ! (m - ntips ex_engine) < int m \<and>
          name_to_nodeindex ex_engine (fst (nodes_in_index_order ex_tree ! m) @ [0])
            = Some (nat (rdescend ex_engine ! (m - ntips ex_engine)))"
    by blast+
  from r have w1: "name_to_nodeindex ex_engine [] = Some 4"
    using n by simp
  from spec [OF c, of 4]
  have w2: "rdescend ex_engine ! (4 - ntips ex_engine) < 4 \<and> ldescend ex_engine ! (4 - ntips ex_engine) < 4
       \<and> name_to_nodeindex ex_engine (fst (nodes_in_index_order ex_tree ! 4) @ [0])
            = Some (nat (rdescend ex_engine ! (4 - ntips ex_engine)))"
    using n by simp
  from w1 w2 show ?thesis using ex_init n x by simp
qed

section \<open>The p-value helper of \<open>modeladequacy.py\<close>\<close>

text \<open>
  \<open>calculate_pvalue(simulation_values, true_value, seed)\<close>. The pseudo-random generator of
  the numerical library is not part of the program: the draw
  \<open>scipy.random.randint(tie_breaker, size=1)[0]\<close> is the parameter \<open>randint\<close>, applied to the
  number of ties. Seeding the generator only selects which function \<open>randint\<close> is.
  The division is Python 3's true division.
\<close>

definition calculate_pvalue :: "(nat \<Rightarrow> nat) \<Rightarrow> real list \<Rightarrow> real \<Rightarrow> error + real" where
  "calculate_pvalue randint simulation_values true_value =
     (if \<not> length simulation_values \<ge> 2 then Inl AssertionError
      else
        let greater = length (filter (\<lambda>v. v > true_value) simulation_values);
            tie_breaker = length (filter (\<lambda>v. v = true_value) simulation_values);
            tie_breaker = (if tie_breaker \<ge> 1 then randint tie_breaker else tie_breaker);
            pvalue = real (greater + tie_breaker + 1) / real (length simulation_values + 1)
        in if 0 \<le> pvalue \<and> pvalue \<le> 1 then Inr pvalue else Inl AssertionError)"

section \<open>Properties of the p-value helper\<close>

lemma filter_gt_eq_le_length:
  "length (filter (\<lambda>v. v > (c::real)) xs) + length (filter (\<lambda>v. v = c) xs) \<le> length xs"
proof (induction xs)
  case Nil
  show ?case by simp
next
  case (Cons a xs)
  then show ?case by (cases "a > c"; cases "a = c") simp_all
qed

lemma filter_eq_empty_length:
  "c \<notin> set xs \<Longrightarrow> length (filter (\<lambda>v. v = (c::real)) xs) = 0"
  by (induction xs) auto

text \<open>
  C9. With at least two simulation values, none of them equal to the true value, the
  function returns (g + 1) / (n + 1), g the number of simulation values strictly greater
  than the true value and n their number, whatever the generator is. On [11, 12, 13, 14]
  against 10 it returns 1. On [1, 10, 10, 11] against 10 there are two ties, one value is
  greater, and the result is (2 + d) / 5 for the draw d of the generator among two ties:
  it is 0.6 exactly for the draw 1, the draw the doctest of the source records for seed 1.
\<close>

theorem calculate_pvalue_formula:
  "(length xs \<ge> 2 \<and> tv \<notin> set xs \<longrightarrow>
      calculate_pvalue rnd xs tv =
        Inr (real (length (filter (\<lambda>v. v > tv) xs) + 1) / real (length xs + 1)))
   \<and> calculate_pvalue rnd [11, 12, 13, 14] 10 = Inr 1
   \<and> (rnd 2 = 1 \<longrightarrow> calculate_pvalue rnd [1, 10, 10, 11] 10 = Inr (6 / 10))
   \<and> (rnd 2 < 2 \<longrightarrow> calculate_pvalue rnd [1, 10, 10, 11] 10 = Inr (6 / 10) \<longrightarrow> rnd 2 = 1)"
proof (intro conjI impI)
  assume h: "length xs \<ge> 2 \<and> tv \<notin> set xs"
  let ?g = "length (filter (\<lambda>v. v > tv) xs)"
  have ties: "length (filter (\<lambda>v. v = tv) xs) = 0"
    using h by (simp add: filter_eq_empty_length)
  have "?g \<le> length xs"
    by simp
  then have le: "real (?g + 1) / real (length xs + 1) \<le> 1"
    by simp
  have ge: "0 \<le> real (?g + 1) / real (length xs + 1)"
    by simp
  show "calculate_pvalue rnd xs tv = Inr (real (?g + 1) / real (length xs + 1))"
    using h ties le ge by (simp add: calculate_pvalue_def Let_def)
next
  show "calculate_pvalue rnd [11, 12, 13, 14] 10 = Inr 1"
    by (simp add: calculate_pvalue_def Let_def)
next
  assume "rnd 2 = 1"
  then have "rnd (Suc (Suc 0)) = Suc 0"
    by (simp add: numeral_2_eq_2)
  then show "calculate_pvalue rnd [1, 10, 10, 11] 10 = Inr (6 / 10)"
    by (simp add: calculate_pvalue_def Let_def)
next
  assume b: "rnd 2 < 2" and r: "calculate_pvalue rnd [1, 10, 10, 11] 10 = Inr (6 / 10)"
  from b have "rnd 2 = 0 \<or> rnd 2 = 1" by arith
  then show "rnd 2 = 1"
  proof
    assume "rnd 2 = 0"
    then have "rnd (Suc (Suc 0)) = 0"
      by (simp add: numeral_2_eq_2)
    with r show ?thesis by (simp add: calculate_pvalue_def Let_def)
  qed simp
qed

theorem calculate_pvalue_formula_witness:
  "length [3, 4, 12, 9 :: real] \<ge> 2 \<and> (10::real) \<notin> set [3, 4, 12, 9]
   \<and> calculate_pvalue (\<lambda>k. 1) [3, 4, 12, 9] 10 = Inr (2 / 5)
   \<and> (\<lambda>k. 1::nat) 2 = 1
   \<and> calculate_pvalue (\<lambda>k. 1) [1, 10, 10, 11] 10 = Inr (6 / 10)"
  using calculate_pvalue_formula [of "[3, 4, 12, 9]" 10 "\<lambda>k. 1"]
  by simp

text \<open>
  C10. With at least two simulation values and a draw below the number of ties whenever
  there is a tie, the function returns a value p with 1 / (n + 1) \<le> p \<le> 1: the closing
  assertion does not fail and p is never 0.
\<close>

theorem calculate_pvalue_bounds:
  assumes "length xs \<ge> 2"
    and "length (filter (\<lambda>v. v = tv) xs) \<ge> 1 \<longrightarrow>
           rnd (length (filter (\<lambda>v. v = tv) xs)) < length (filter (\<lambda>v. v = tv) xs)"
  shows "\<exists>p. calculate_pvalue rnd xs tv = Inr p \<and> 1 / real (length xs + 1) \<le> p \<and> p \<le> 1 \<and> p \<noteq> 0"
proof -
  let ?g = "length (filter (\<lambda>v. v > tv) xs)"
  let ?e = "length (filter (\<lambda>v. v = tv) xs)"
  let ?tb = "if ?e \<ge> 1 then rnd ?e else ?e"
  let ?p = "real (?g + ?tb + 1) / real (length xs + 1)"
  have sum_le: "?g + ?e \<le> length xs"
    by (rule filter_gt_eq_le_length)
  have tb: "?g + ?tb + 1 \<le> length xs + 1"
    using sum_le assms(2) by (cases "?e \<ge> 1") auto
  have up: "?p \<le> 1"
    using tb by (simp del: of_nat_add of_nat_Suc)
  have lo: "1 / real (length xs + 1) \<le> ?p"
    by (rule divide_right_mono) simp_all
  have pos: "0 < 1 / real (length xs + 1)"
    by simp
  have nn: "0 \<le> ?p"
    by simp
  have "calculate_pvalue rnd xs tv = Inr ?p"
    using assms(1) up nn by (simp add: calculate_pvalue_def Let_def)
  moreover have "?p \<noteq> 0"
    using lo pos by linarith
  ultimately show ?thesis
    using lo up by blast
qed

theorem calculate_pvalue_bounds_witness:
  "length [1, 2, 3, 4 :: real] \<ge> 2
   \<and> (\<exists>p. calculate_pvalue (\<lambda>k. 0) [1, 2, 3, 4] 10 = Inr p \<and> 1 / 5 \<le> p \<and> p \<le> 1 \<and> p \<noteq> 0)
   \<and> calculate_pvalue (\<lambda>k. 0) [1, 2, 3, 4] 10 = Inr (1 / 5)"
proof -
  have a: "length [1, 2, 3, 4 :: real] \<ge> 2" by simp
  have b: "length (filter (\<lambda>v. v = 10) [1, 2, 3, 4 :: real]) \<ge> 1 \<longrightarrow>
      (\<lambda>k. 0::nat) (length (filter (\<lambda>v. v = 10) [1, 2, 3, 4 :: real]))
        < length (filter (\<lambda>v. v = 10) [1, 2, 3, 4 :: real])"
    by simp
  have c: "calculate_pvalue (\<lambda>k. 0) [1, 2, 3, 4] 10 = Inr (1 / 5)"
    by (simp add: calculate_pvalue_def Let_def)
  show ?thesis
    using calculate_pvalue_bounds [OF a b] a c by simp
qed

end
